theory Spec2Isabelle
  imports Main
begin

section \<open>Data model (models/Contact, as used by Database and ContactService)\<close>

text \<open>
  A row of the \<^verbatim>\<open>contacts\<close> table and the object the service holds for it have the same
  fields. Nullable columns are options (\<open>None\<close> is SQL NULL / JS \<open>null\<close>), identifiers are
  naturals, timestamps are integers (milliseconds, as \<^verbatim>\<open>getTime()\<close> reads them).
  The field \<^verbatim>\<open>id\<close> is called \<open>id_c\<close> here, since \<open>id\<close> is the identity function of HOL.
\<close>

datatype precedence = Primary | Secondary

record contact =
  id_c :: nat
  phoneNumber :: "string option"
  email :: "string option"
  linkedId :: "nat option"
  linkPrecedence :: precedence
  createdAt :: int
  updatedAt :: int
  deletedAt :: "int option"

text \<open>\<^verbatim>\<open>CreateContactData\<close>: the argument of \<^verbatim>\<open>createContact\<close>; an absent \<^verbatim>\<open>linkedId\<close> is \<open>None\<close>.\<close>

record createContactData =
  d_phoneNumber :: "string option"
  d_email :: "string option"
  d_linkedId :: "nat option"
  d_linkPrecedence :: precedence

text \<open>
  The \<^verbatim>\<open>Partial<Contact>\<close> argument of \<^verbatim>\<open>updateContact\<close>, restricted to the two keys the
  service ever passes. \<open>None\<close> means the key is absent from the object.
\<close>

record contactUpdates =
  u_linkedId :: "nat option"
  u_linkPrecedence :: "precedence option"

text \<open>\<^verbatim>\<open>IdentifyRequest\<close>: both fields optional (\<open>None\<close> is \<^verbatim>\<open>undefined\<close>).\<close>

record identifyRequest =
  r_email :: "string option"
  r_phoneNumber :: "string option"

record consolidatedContact =
  primaryContactId :: nat
  emails :: "string list"
  phoneNumbers :: "string list"
  secondaryContactIds :: "nat list"

text \<open>
  Everything \<^verbatim>\<open>identify\<close> can throw: the two \<^verbatim>\<open>Error\<close>s of the service, the
  \<^verbatim>\<open>TypeError\<close> of reading \<^verbatim>\<open>.id\<close> of \<^verbatim>\<open>undefined\<close> (\<^verbatim>\<open>primaryContacts[0]\<close> of an empty
  array), and a rejection of a Store promise (\<^verbatim>\<open>reject(err)\<close>).
\<close>

datatype error =
  NoPrimaryContactsFound
  | NoPrimaryContactFound
  | TypeError
  | StorageError

section \<open>The Record Store (database/Database)\<close>

text \<open>
  The table is the list \<open>rows\<close>, in the order an unordered \<^verbatim>\<open>SELECT\<close> returns it.
  \<open>seq\<close> is the AUTOINCREMENT counter: a new id is one more than every id of the table
  and than every id handed out before. \<open>faults\<close> is the fate of the coming Store calls,
  one entry per call that reaches SQLite: \<open>True\<close> means the callback gets an \<^verbatim>\<open>err\<close> and
  the promise is rejected; the empty schedule means that no call fails.
\<close>

record db =
  rows :: "contact list"
  seq :: nat
  faults :: "bool list"

text \<open>
  The clock of one \<^verbatim>\<open>identify\<close> call: \<open>dbNow\<close> is what \<^verbatim>\<open>CURRENT_TIMESTAMP\<close> writes into a
  row, \<open>jsNow\<close> is the \<^verbatim>\<open>new Date()\<close> put into the object \<^verbatim>\<open>createContact\<close> returns.
\<close>

record clock =
  dbNow :: int
  jsNow :: int

type_synonym 'a result = "db \<times> (error + 'a)"

text \<open>JS truthiness of an optional string: \<^verbatim>\<open>undefined\<close>, \<^verbatim>\<open>null\<close> and \<^verbatim>\<open>''\<close> are falsy.\<close>

definition truthy :: "string option \<Rightarrow> bool" where
  "truthy x = (case x of None \<Rightarrow> False | Some v \<Rightarrow> v \<noteq> [])"

text \<open>\<^verbatim>\<open>x || null\<close> on an optional string.\<close>

definition orNull :: "string option \<Rightarrow> string option" where
  "orNull x = (if truthy x then x else None)"

text \<open>\<^verbatim>\<open>data.linkedId || null\<close>: the number 0 is falsy as well.\<close>

definition idOrNull :: "nat option \<Rightarrow> nat option" where
  "idOrNull x = (case x of None \<Rightarrow> None | Some n \<Rightarrow> if n = 0 then None else Some n)"

text \<open>\<^verbatim>\<open>await p\<close> followed by the rest of the function: a rejection ends it.\<close>

definition await :: "'a result \<Rightarrow> ('a \<Rightarrow> db \<Rightarrow> 'b result) \<Rightarrow> 'b result" where
  "await r k = (case r of (s, Inl e) \<Rightarrow> (s, Inl e) | (s, Inr x) \<Rightarrow> k x s)"

text \<open>One call into SQLite: it takes the next entry of the schedule.\<close>

definition sqlite :: "db \<Rightarrow> db \<times> bool" where
  "sqlite s = (case faults s of [] \<Rightarrow> (s, False) | b # bs \<Rightarrow> (s\<lparr>faults := bs\<rparr>, b))"

text \<open>\<^verbatim>\<open>this.db.all(query, ...)\<close> for a \<^verbatim>\<open>SELECT * FROM contacts WHERE\<close> condition.\<close>

definition dbAll :: "(contact \<Rightarrow> bool) \<Rightarrow> db \<Rightarrow> contact list result" where
  "dbAll cond s =
     (case sqlite s of
        (s', True) \<Rightarrow> (s', Inl StorageError)
      | (s', False) \<Rightarrow> (s', Inr (filter cond (rows s'))))"

definition live :: "contact \<Rightarrow> bool" where
  "live c = (deletedAt c = None)"

definition findContactsByEmailOrPhone ::
  "string option \<Rightarrow> string option \<Rightarrow> db \<Rightarrow> contact list result" where
  "findContactsByEmailOrPhone em ph s =
     (if truthy em \<and> truthy ph then
        dbAll (\<lambda>c. live c \<and> (email c = em \<or> phoneNumber c = ph)) s
      else if truthy em then dbAll (\<lambda>c. live c \<and> email c = em) s
      else if truthy ph then dbAll (\<lambda>c. live c \<and> phoneNumber c = ph) s
      else (s, Inr []))"

text \<open>
  \<^verbatim>\<open>WHERE deletedAt IS NULL AND (id = ? OR linkedId = ?) ORDER BY createdAt ASC\<close>;
  rows of equal \<^verbatim>\<open>createdAt\<close> keep their table order.
\<close>

definition linkedRows :: "nat \<Rightarrow> contact list \<Rightarrow> contact list" where
  "linkedRows primaryId rs =
     sort_key createdAt
       (filter (\<lambda>c. live c \<and> (id_c c = primaryId \<or> linkedId c = Some primaryId)) rs)"

definition findAllLinkedContacts :: "nat \<Rightarrow> db \<Rightarrow> contact list result" where
  "findAllLinkedContacts primaryId s =
     (case sqlite s of
        (s', True) \<Rightarrow> (s', Inl StorageError)
      | (s', False) \<Rightarrow> (s', Inr (linkedRows primaryId (rows s'))))"

definition nextId :: "db \<Rightarrow> nat" where
  "nextId s = Suc (fold max (map id_c (rows s)) (seq s))"

definition createContact :: "clock \<Rightarrow> createContactData \<Rightarrow> db \<Rightarrow> contact result" where
  "createContact clk data s =
     (case sqlite s of
        (s', True) \<Rightarrow> (s', Inl StorageError)
      | (s', False) \<Rightarrow>
          (let createdId = nextId s' in
           (s'\<lparr>rows := rows s' @
                  [\<lparr>id_c = createdId, phoneNumber = d_phoneNumber data, email = d_email data,
                    linkedId = d_linkedId data, linkPrecedence = d_linkPrecedence data,
                    createdAt = dbNow clk, updatedAt = dbNow clk, deletedAt = None\<rparr>],
                seq := createdId\<rparr>,
            Inr \<lparr>id_c = createdId, phoneNumber = orNull (d_phoneNumber data),
                  email = orNull (d_email data), linkedId = idOrNull (d_linkedId data),
                  linkPrecedence = d_linkPrecedence data,
                  createdAt = jsNow clk, updatedAt = jsNow clk, deletedAt = None\<rparr>)))"

text \<open>
  \<^verbatim>\<open>UPDATE contacts SET <keys>, updatedAt = CURRENT_TIMESTAMP WHERE id = ?\<close>. The statement
  does not look at \<^verbatim>\<open>deletedAt\<close>, and it succeeds when no row has the id. With no key
  at all the SET clause starts with a comma and SQLite rejects the statement.
\<close>

definition applyUpdates :: "clock \<Rightarrow> contactUpdates \<Rightarrow> contact \<Rightarrow> contact" where
  "applyUpdates clk u c =
     (let c1 = (case u_linkedId u of None \<Rightarrow> c | Some l \<Rightarrow> c\<lparr>linkedId := Some l\<rparr>);
          c2 = (case u_linkPrecedence u of None \<Rightarrow> c1 | Some p \<Rightarrow> c1\<lparr>linkPrecedence := p\<rparr>)
      in c2\<lparr>updatedAt := dbNow clk\<rparr>)"

definition updateContact :: "clock \<Rightarrow> nat \<Rightarrow> contactUpdates \<Rightarrow> db \<Rightarrow> unit result" where
  "updateContact clk i u s =
     (case sqlite s of
        (s', True) \<Rightarrow> (s', Inl StorageError)
      | (s', False) \<Rightarrow>
          (if u_linkedId u = None \<and> u_linkPrecedence u = None then (s', Inl StorageError)
           else (s'\<lparr>rows := map (\<lambda>c. if id_c c = i then applyUpdates clk u c else c) (rows s')\<rparr>,
                 Inr ())))"

section \<open>The Identity Reconciler (services/ContactService)\<close>

text \<open>\<^verbatim>\<open>Array.from(new Set(xs))\<close>: the elements in the order of their first occurrence.\<close>

fun fromSet :: "'a list \<Rightarrow> 'a list" where
  "fromSet [] = []"
| "fromSet (x # xs) = x # fromSet (removeAll x xs)"

definition needsNewSecondaryContact ::
  "contact list \<Rightarrow> string option \<Rightarrow> string option \<Rightarrow> bool" where
  "needsNewSecondaryContact existingContacts em ph =
     (let exactMatch = list_ex (\<lambda>c. email c = orNull em \<and> phoneNumber c = orNull ph)
                         existingContacts
      in if exactMatch then False
         else
           (let hasNewEmail = (truthy em \<and> \<not> list_ex (\<lambda>c. email c = em) existingContacts);
                hasNewPhone = (truthy ph \<and> \<not> list_ex (\<lambda>c. phoneNumber c = ph) existingContacts)
            in hasNewEmail \<or> hasNewPhone))"

text \<open>\<^verbatim>\<open>if (v && !acc.includes(v)) acc.push(v)\<close>.\<close>

definition pushNew :: "string option \<Rightarrow> string list \<Rightarrow> string list" where
  "pushNew v acc =
     (case v of None \<Rightarrow> acc | Some x \<Rightarrow> if x \<noteq> [] \<and> x \<notin> set acc then acc @ [x] else acc)"

text \<open>
  \<^verbatim>\<open>contacts.sort\<close> by \<^verbatim>\<open>createdAt\<close> is stable, as \<open>sort_key\<close> is; \<^verbatim>\<open>find\<close> returns the first
  primary of the sorted array.
\<close>

definition buildConsolidatedContact :: "contact list \<Rightarrow> error + consolidatedContact" where
  "buildConsolidatedContact contacts0 =
     (let contacts = sort_key createdAt contacts0 in
      case find (\<lambda>c. linkPrecedence c = Primary) contacts of
        None \<Rightarrow> Inl NoPrimaryContactFound
      | Some primary \<Rightarrow>
          (let secondaryContacts = filter (\<lambda>c. linkPrecedence c = Secondary) contacts in
           Inr \<lparr>primaryContactId = id_c primary,
                emails = fold (\<lambda>c acc. pushNew (email c) acc) secondaryContacts
                           (pushNew (email primary) []),
                phoneNumbers = fold (\<lambda>c acc. pushNew (phoneNumber c) acc) secondaryContacts
                                 (pushNew (phoneNumber primary) []),
                secondaryContactIds = map id_c secondaryContacts\<rparr>))"

text \<open>
  \<^verbatim>\<open>Promise.all(primaryIds.map(id => this.db.findAllLinkedContacts(id)))\<close>: every query is
  issued, in the order of the ids; the result is rejected when one of them is.
\<close>

fun fetchGroups :: "nat list \<Rightarrow> db \<Rightarrow> contact list list result" where
  "fetchGroups [] s = (s, Inr [])"
| "fetchGroups (p # ps) s =
     (case findAllLinkedContacts p s of
        (s1, r) \<Rightarrow>
          (case fetchGroups ps s1 of
             (s2, rs) \<Rightarrow>
               (s2, case r of
                      Inl e \<Rightarrow> Inl e
                    | Inr g \<Rightarrow> (case rs of Inl e \<Rightarrow> Inl e | Inr gs \<Rightarrow> Inr (g # gs)))))"

text \<open>
  The arrays \<^verbatim>\<open>primaryContacts\<close> and \<^verbatim>\<open>secondaryContacts\<close> of \<^verbatim>\<open>mergePrimaryContacts\<close> hold
  the same objects as \<^verbatim>\<open>allContacts\<close>, and the loops write to these objects. An object is
  named here by its position in \<^verbatim>\<open>allContacts\<close>: the two arrays are lists of positions, and
  a write to an object is a write at its position.
\<close>

definition sortedPrimaries :: "contact list \<Rightarrow> nat list" where
  "sortedPrimaries allContacts =
     sort_key (\<lambda>i. createdAt (allContacts ! i))
       (filter (\<lambda>i. linkPrecedence (allContacts ! i) = Primary) [0..<length allContacts])"

definition secondaries :: "contact list \<Rightarrow> nat list" where
  "secondaries allContacts =
     filter (\<lambda>i. linkPrecedence (allContacts ! i) = Secondary) [0..<length allContacts]"

text \<open>The loop \<^verbatim>\<open>for (const primary of primaryContacts)\<close>.\<close>

fun demoteLoop :: "clock \<Rightarrow> nat \<Rightarrow> nat list \<Rightarrow> contact list \<Rightarrow> db \<Rightarrow> contact list result" where
  "demoteLoop clk oldestId [] allContacts s = (s, Inr allContacts)"
| "demoteLoop clk oldestId (i # is) allContacts s =
     (if id_c (allContacts ! i) \<noteq> oldestId then
        await (updateContact clk (id_c (allContacts ! i))
                 \<lparr>u_linkedId = Some oldestId, u_linkPrecedence = Some Secondary\<rparr> s)
          (\<lambda>_ s'. demoteLoop clk oldestId is
                     (allContacts[i := (allContacts ! i)\<lparr>linkedId := Some oldestId,
                                                        linkPrecedence := Secondary\<rparr>]) s')
      else demoteLoop clk oldestId is allContacts s)"

text \<open>The loop \<^verbatim>\<open>for (const secondary of secondaryContacts)\<close>.\<close>

fun relinkLoop :: "clock \<Rightarrow> nat \<Rightarrow> nat list \<Rightarrow> contact list \<Rightarrow> db \<Rightarrow> contact list result" where
  "relinkLoop clk oldestId [] allContacts s = (s, Inr allContacts)"
| "relinkLoop clk oldestId (i # is) allContacts s =
     (if linkedId (allContacts ! i) \<noteq> Some oldestId then
        await (updateContact clk (id_c (allContacts ! i))
                 \<lparr>u_linkedId = Some oldestId, u_linkPrecedence = None\<rparr> s)
          (\<lambda>_ s'. relinkLoop clk oldestId is
                     (allContacts[i := (allContacts ! i)\<lparr>linkedId := Some oldestId\<rparr>]) s')
      else relinkLoop clk oldestId is allContacts s)"

text \<open>
  When no fetched record is primary, \<^verbatim>\<open>oldestPrimary\<close> is \<^verbatim>\<open>undefined\<close>: the first loop has
  nothing to do, and the first read of \<^verbatim>\<open>oldestPrimary.id\<close> (in the second loop, or in the
  argument of \<^verbatim>\<open>createContact\<close>) throws a \<^verbatim>\<open>TypeError\<close>.
\<close>

definition mergePrimaryContacts ::
  "clock \<Rightarrow> nat list \<Rightarrow> string option \<Rightarrow> string option \<Rightarrow> db \<Rightarrow> consolidatedContact result" where
  "mergePrimaryContacts clk primaryIds em ph s =
     await (fetchGroups primaryIds s) (\<lambda>allContactsGroups s1.
       let allContacts = concat allContactsGroups;
           primaryContacts = sortedPrimaries allContacts
       in case primaryContacts of
            [] \<Rightarrow>
              (if secondaries allContacts \<noteq> [] then (s1, Inl TypeError)
               else if needsNewSecondaryContact allContacts em ph then (s1, Inl TypeError)
               else (s1, buildConsolidatedContact allContacts))
          | i0 # _ \<Rightarrow>
              (let oldestId = id_c (allContacts ! i0) in
               await (demoteLoop clk oldestId primaryContacts allContacts s1) (\<lambda>demoted s2.
                 await (relinkLoop clk oldestId (secondaries demoted) demoted s2) (\<lambda>relinked s3.
                   if needsNewSecondaryContact relinked em ph then
                     await (createContact clk
                              \<lparr>d_phoneNumber = orNull ph, d_email = orNull em,
                               d_linkedId = Some oldestId, d_linkPrecedence = Secondary\<rparr> s3)
                       (\<lambda>newSecondary s4.
                          (s4, buildConsolidatedContact (relinked @ [newSecondary])))
                   else (s3, buildConsolidatedContact relinked)))))"

definition allPrimaryIds :: "contact list \<Rightarrow> nat list" where
  "allPrimaryIds existingContacts =
     (let primaryContacts = filter (\<lambda>c. linkPrecedence c = Primary) existingContacts;
          secondaryContacts = filter (\<lambda>c. linkPrecedence c = Secondary) existingContacts;
          primaryIdsFromSecondary =
            map the (filter (\<lambda>l. l \<noteq> None) (map linkedId secondaryContacts))
      in fromSet (map id_c primaryContacts @ primaryIdsFromSecondary))"

definition identify :: "clock \<Rightarrow> identifyRequest \<Rightarrow> db \<Rightarrow> consolidatedContact result" where
  "identify clk request s =
     (let em = r_email request; ph = r_phoneNumber request in
      await (findContactsByEmailOrPhone em ph s) (\<lambda>existingContacts s1.
        if existingContacts = [] then
          await (createContact clk
                   \<lparr>d_phoneNumber = orNull ph, d_email = orNull em,
                    d_linkedId = None, d_linkPrecedence = Primary\<rparr> s1)
            (\<lambda>newContact s2. (s2, buildConsolidatedContact [newContact]))
        else
          (let primaryIds = allPrimaryIds existingContacts in
           if primaryIds = [] then (s1, Inl NoPrimaryContactsFound)
           else if length primaryIds = 1 then
             (let primaryId = hd primaryIds in
              await (findAllLinkedContacts primaryId s1) (\<lambda>allLinkedContacts s2.
                if needsNewSecondaryContact allLinkedContacts em ph then
                  await (createContact clk
                           \<lparr>d_phoneNumber = orNull ph, d_email = orNull em,
                            d_linkedId = Some primaryId, d_linkPrecedence = Secondary\<rparr> s2)
                    (\<lambda>newSecondary s3.
                       (s3, buildConsolidatedContact (allLinkedContacts @ [newSecondary])))
                else (s2, buildConsolidatedContact allLinkedContacts)))
           else mergePrimaryContacts clk primaryIds em ph s1)))"

section \<open>Notions of the specification\<close>

text \<open>
  The value of an optional field when it is present (a non-empty string).
\<close>

definition given :: "string option \<Rightarrow> string list" where
  "given v = (case v of None \<Rightarrow> [] | Some x \<Rightarrow> if x = [] then [] else [x])"

text \<open>
  The candidate set of an observation: what \<^verbatim>\<open>findContactsByEmailOrPhone\<close> selects from
  the table. The set of governing primary ids is \<open>allPrimaryIds\<close> of the candidates, and
  the full membership is what \<^verbatim>\<open>findAllLinkedContacts\<close> returns for these ids, one after
  the other.
\<close>

definition candidates :: "string option \<Rightarrow> string option \<Rightarrow> contact list \<Rightarrow> contact list" where
  "candidates em ph rs =
     (if truthy em \<and> truthy ph then filter (\<lambda>c. live c \<and> (email c = em \<or> phoneNumber c = ph)) rs
      else if truthy em then filter (\<lambda>c. live c \<and> email c = em) rs
      else if truthy ph then filter (\<lambda>c. live c \<and> phoneNumber c = ph) rs
      else [])"

definition candidateSet :: "identifyRequest \<Rightarrow> db \<Rightarrow> contact list" where
  "candidateSet req s = candidates (r_email req) (r_phoneNumber req) (rows s)"

definition governingIds :: "identifyRequest \<Rightarrow> db \<Rightarrow> nat list" where
  "governingIds req s = allPrimaryIds (candidateSet req s)"

definition membership :: "nat list \<Rightarrow> contact list \<Rightarrow> contact list" where
  "membership primaryIds rs = concat (map (\<lambda>p. linkedRows p rs) primaryIds)"

definition fullMembership :: "identifyRequest \<Rightarrow> db \<Rightarrow> contact list" where
  "fullMembership req s = membership (governingIds req s) (rows s)"

definition hasPrimary :: "contact list \<Rightarrow> bool" where
  "hasPrimary M = list_ex (\<lambda>c. linkPrecedence c = Primary) M"

text \<open>
  The new-information test, in the words of the specification: no member has exactly the
  pair of the observation, and the observation supplies an email or a phone that no
  member has.
\<close>

definition newInformation :: "contact list \<Rightarrow> string option \<Rightarrow> string option \<Rightarrow> bool" where
  "newInformation M em ph =
     (\<not> (\<exists>m\<in>set M. email m = orNull em \<and> phoneNumber m = orNull ph)
      \<and> ((truthy em \<and> em \<notin> email ` set M) \<or> (truthy ph \<and> ph \<notin> phoneNumber ` set M)))"

text \<open>
  The primary a merge keeps: the first of the fetched primaries, sorted by \<open>createdAt\<close>.
  \<open>earliestPrimary\<close> says that a record is a primary of the earliest \<open>createdAt\<close>; the
  governing id of an observation is the single governing primary id, or the id of the
  primary the merge keeps.
\<close>

definition oldestPrimary :: "contact list \<Rightarrow> contact" where
  "oldestPrimary M = hd (sort_key createdAt (filter (\<lambda>c. linkPrecedence c = Primary) M))"

definition earliestPrimary :: "contact list \<Rightarrow> contact \<Rightarrow> bool" where
  "earliestPrimary M c =
     (linkPrecedence c = Primary \<and>
      (\<forall>d\<in>set M. linkPrecedence d = Primary \<longrightarrow> createdAt c \<le> createdAt d))"

definition governingId :: "nat list \<Rightarrow> contact list \<Rightarrow> nat" where
  "governingId P M = (if length P = 1 then hd P else id_c (oldestPrimary M))"

text \<open>
  The depth-1 forest over the live records. \<open>wellFormed\<close> is the invariant in the form
  that is preserved: the ids are distinct, a primary has no \<open>linkedId\<close>, and the
  \<open>linkedId\<close> of a secondary is the id of a live primary. \<open>depth1Forest\<close> is what the
  specification asks for: every secondary points to a primary, and the membership of a
  primary is that primary with secondaries pointing to it.
\<close>

definition wellFormed :: "db \<Rightarrow> bool" where
  "wellFormed s \<longleftrightarrow>
     distinct (map id_c (rows s)) \<and>
     (\<forall>c\<in>set (rows s). live c \<longrightarrow>
        (case linkPrecedence c of
           Primary \<Rightarrow> linkedId c = None
         | Secondary \<Rightarrow>
             (\<exists>p\<in>set (rows s). live p \<and> linkPrecedence p = Primary \<and> linkedId c = Some (id_c p))))"


section \<open>The effect of the writes, in closed form\<close>

text \<open>
  The row \<^verbatim>\<open>createContact\<close> inserts and the object it returns, and the data the service
  passes for a new primary and a new secondary.
\<close>

definition newRow :: "clock \<Rightarrow> nat \<Rightarrow> createContactData \<Rightarrow> contact" where
  "newRow clk i d = \<lparr>id_c = i, phoneNumber = d_phoneNumber d, email = d_email d,
      linkedId = d_linkedId d, linkPrecedence = d_linkPrecedence d,
      createdAt = dbNow clk, updatedAt = dbNow clk, deletedAt = None\<rparr>"

definition newObj :: "clock \<Rightarrow> nat \<Rightarrow> createContactData \<Rightarrow> contact" where
  "newObj clk i d = \<lparr>id_c = i, phoneNumber = orNull (d_phoneNumber d), email = orNull (d_email d),
      linkedId = idOrNull (d_linkedId d), linkPrecedence = d_linkPrecedence d,
      createdAt = jsNow clk, updatedAt = jsNow clk, deletedAt = None\<rparr>"

definition primaryData :: "string option \<Rightarrow> string option \<Rightarrow> createContactData" where
  "primaryData em ph =
     \<lparr>d_phoneNumber = orNull ph, d_email = orNull em,
      d_linkedId = None, d_linkPrecedence = Primary\<rparr>"

definition secondaryData :: "string option \<Rightarrow> string option \<Rightarrow> nat \<Rightarrow> createContactData" where
  "secondaryData em ph primaryId =
     \<lparr>d_phoneNumber = orNull ph, d_email = orNull em,
      d_linkedId = Some primaryId, d_linkPrecedence = Secondary\<rparr>"

text \<open>
  \<^verbatim>\<open>updateContact\<close> applied to every id of a set; the ids the two loops of the merge
  update; what the loops do to an object of \<^verbatim>\<open>allContacts\<close>; the table and the objects
  after both loops. \<open>mergeRow\<close> is the effect on a single row when the ids are distinct.
\<close>

definition updateRows :: "clock \<Rightarrow> contactUpdates \<Rightarrow> nat set \<Rightarrow> contact list \<Rightarrow> contact list" where
  "updateRows clk u ids rs = map (\<lambda>c. if id_c c \<in> ids then applyUpdates clk u c else c) rs"

definition demotedIds :: "nat \<Rightarrow> contact list \<Rightarrow> nat set" where
  "demotedIds oid M = id_c ` {c \<in> set M. linkPrecedence c = Primary \<and> id_c c \<noteq> oid}"

definition relinkedIds :: "nat \<Rightarrow> contact list \<Rightarrow> nat set" where
  "relinkedIds oid M = id_c ` {c \<in> set M. linkPrecedence c = Secondary \<and> linkedId c \<noteq> Some oid}"

definition demoteObj :: "nat \<Rightarrow> contact \<Rightarrow> contact" where
  "demoteObj oldestId c =
     (if linkPrecedence c = Primary \<and> id_c c \<noteq> oldestId
      then c\<lparr>linkedId := Some oldestId, linkPrecedence := Secondary\<rparr> else c)"

definition relinkObj :: "nat \<Rightarrow> contact \<Rightarrow> contact" where
  "relinkObj oldestId c =
     (if linkPrecedence c = Secondary \<and> linkedId c \<noteq> Some oldestId
      then c\<lparr>linkedId := Some oldestId\<rparr> else c)"

definition mergedRows :: "clock \<Rightarrow> nat \<Rightarrow> contact list \<Rightarrow> contact list \<Rightarrow> contact list" where
  "mergedRows clk oid M rs =
     updateRows clk \<lparr>u_linkedId = Some oid, u_linkPrecedence = None\<rparr> (relinkedIds oid M)
       (updateRows clk \<lparr>u_linkedId = Some oid, u_linkPrecedence = Some Secondary\<rparr>
          (demotedIds oid M) rs)"

definition mergedObjs :: "nat \<Rightarrow> contact list \<Rightarrow> contact list" where
  "mergedObjs oid M = map (relinkObj oid) (map (demoteObj oid) M)"

definition mergeRow :: "clock \<Rightarrow> nat \<Rightarrow> contact list \<Rightarrow> contact \<Rightarrow> contact" where
  "mergeRow clk oid M c =
     (if c \<in> set M \<and> linkPrecedence c = Primary \<and> id_c c \<noteq> oid
      then c\<lparr>linkedId := Some oid, linkPrecedence := Secondary, updatedAt := dbNow clk\<rparr>
      else if c \<in> set M \<and> linkPrecedence c = Secondary \<and> linkedId c \<noteq> Some oid
      then c\<lparr>linkedId := Some oid, updatedAt := dbNow clk\<rparr>
      else c)"


section \<open>Example stores\<close>

text \<open>
  The scenario of the specification (Lorraine, then George and Biff), a secondary whose
  primary is missing, two primaries created in the same second, and a Store that rejects
  its fifth call.
\<close>

definition emptyStore :: db where
  "emptyStore = \<lparr>rows = [], seq = 0, faults = []\<rparr>"

definition clock0 :: clock where
  "clock0 = \<lparr>dbNow = 1000, jsNow = 1001\<rparr>"

definition clock1 :: clock where
  "clock1 = \<lparr>dbNow = 5000, jsNow = 5001\<rparr>"

definition lorraine :: contact where
  "lorraine = \<lparr>id_c = 1, phoneNumber = Some ''123'', email = Some ''lorraine@x'', linkedId = None,
      linkPrecedence = Primary, createdAt = 1000, updatedAt = 1000, deletedAt = None\<rparr>"

definition lorraineStore :: db where
  "lorraineStore = \<lparr>rows = [lorraine], seq = 1, faults = []\<rparr>"

definition orphanStore :: db where
  "orphanStore =
     \<lparr>rows = [\<lparr>id_c = 5, phoneNumber = Some ''999'', email = Some ''o@x'', linkedId = None,
               linkPrecedence = Secondary, createdAt = 1000, updatedAt = 1000, deletedAt = None\<rparr>],
      seq = 5, faults = []\<rparr>"

definition george :: contact where
  "george = \<lparr>id_c = 1, phoneNumber = Some ''919191'', email = Some ''george@x'', linkedId = None,
      linkPrecedence = Primary, createdAt = 1000, updatedAt = 1000, deletedAt = None\<rparr>"

definition biff :: contact where
  "biff = \<lparr>id_c = 2, phoneNumber = Some ''717171'', email = Some ''biff@x'', linkedId = None,
      linkPrecedence = Primary, createdAt = 2000, updatedAt = 2000, deletedAt = None\<rparr>"

definition biff2 :: contact where
  "biff2 = \<lparr>id_c = 3, phoneNumber = Some ''717171'', email = Some ''biff2@x'', linkedId = Some 2,
      linkPrecedence = Secondary, createdAt = 3000, updatedAt = 3000, deletedAt = None\<rparr>"

definition georgeBiffStore :: db where
  "georgeBiffStore = \<lparr>rows = [george, biff, biff2], seq = 3, faults = []\<rparr>"


definition tieA :: contact where
  "tieA = \<lparr>id_c = 1, phoneNumber = Some ''111'', email = Some ''a@x'', linkedId = None,
      linkPrecedence = Primary, createdAt = 1000, updatedAt = 1000, deletedAt = None\<rparr>"

definition tieB :: contact where
  "tieB = \<lparr>id_c = 2, phoneNumber = Some ''222'', email = Some ''b@x'', linkedId = None,
      linkPrecedence = Primary, createdAt = 1000, updatedAt = 1000, deletedAt = None\<rparr>"

definition tieC :: contact where
  "tieC = \<lparr>id_c = 3, phoneNumber = Some ''111'', email = Some ''c@x'', linkedId = Some 1,
      linkPrecedence = Secondary, createdAt = 2000, updatedAt = 2000, deletedAt = None\<rparr>"

definition tieStore :: db where
  "tieStore = \<lparr>rows = [tieA, tieB, tieC], seq = 3, faults = []\<rparr>"

text \<open>The definitions a concrete call is evaluated with.\<close>

lemmas eval_defs =
  identify_def findContactsByEmailOrPhone_def dbAll_def sqlite_def allPrimaryIds_def
  findAllLinkedContacts_def linkedRows_def needsNewSecondaryContact_def createContact_def
  nextId_def buildConsolidatedContact_def pushNew_def truthy_def orNull_def idOrNull_def live_def
  Let_def await_def mergePrimaryContacts_def sortedPrimaries_def secondaries_def
  updateContact_def applyUpdates_def

lemmas notion_defs =
  candidateSet_def governingIds_def fullMembership_def candidates_def membership_def
  newInformation_def governingId_def hasPrimary_def oldestPrimary_def

section \<open>Consolidated view assembly\<close>

lemma fromSet_append_distinct:
  "distinct acc \<Longrightarrow> fromSet (acc @ ys) = acc @ fromSet (filter (\<lambda>y. y \<notin> set acc) ys)"
proof (induction acc arbitrary: ys)
  case Nil
  then show ?case by simp
next
  case (Cons a acc)
  have "filter (\<lambda>y. y \<notin> set (a # acc)) ys = filter (\<lambda>y. y \<notin> set acc) (removeAll a ys)"
    by (induction ys) auto
  with Cons show ?case by simp
qed

lemma set_fromSet: "set (fromSet xs) = set xs"
  by (induction xs rule: fromSet.induct) auto

lemma distinct_fromSet: "distinct (fromSet xs)"
  by (induction xs rule: fromSet.induct) (auto simp: set_fromSet)

lemma fold_pushNew:
  "distinct acc \<Longrightarrow>
   fold (\<lambda>c acc. pushNew (f c) acc) xs acc = fromSet (acc @ concat (map (\<lambda>c. given (f c)) xs))"
proof (induction xs arbitrary: acc)
  case Nil
  then show ?case using fromSet_append_distinct [of acc "[]"] by simp
next
  case (Cons x xs)
  show ?case
  proof (cases "given (f x)")
    case Nil
    then have "pushNew (f x) acc = acc"
      by (auto simp: pushNew_def given_def split: option.splits if_splits)
    with Cons Nil show ?thesis by simp
  next
    case (Cons v vs)
    then have fx: "f x = Some v" "v \<noteq> []" "vs = []"
      by (auto simp: given_def split: option.splits if_splits)
    then have g: "given (f x) = [v]" by (simp add: given_def)
    show ?thesis
    proof (cases "v \<in> set acc")
      case True
      then have "pushNew (f x) acc = acc" using fx by (simp add: pushNew_def)
      then show ?thesis
        using Cons.IH [OF Cons.prems] Cons.prems True g
        by (simp add: fromSet_append_distinct)
    next
      case False
      then have "pushNew (f x) acc = acc @ [v]" using fx by (simp add: pushNew_def)
      moreover have "distinct (acc @ [v])" using False Cons.prems by simp
      ultimately show ?thesis
        using Cons.IH [of "acc @ [v]"] g by simp
    qed
  qed
qed

lemma pushNew_Nil: "pushNew v [] = given v"
  by (simp add: pushNew_def given_def split: option.splits)

lemma distinct_given: "distinct (given v)"
  by (simp add: given_def split: option.splits)

lemma find_filter: "find P xs = (case filter P xs of [] \<Rightarrow> None | x # _ \<Rightarrow> Some x)"
  by (induction xs) auto

text \<open>
  Claim C4. For a membership with exactly one primary record \<open>p\<close>, the consolidated view
  names \<open>p\<close> as the primary; its secondary ids are those of the secondary records in
  ascending \<open>createdAt\<close> order (records of equal \<open>createdAt\<close> in the order of the input);
  its email list is the email of \<open>p\<close>, when present, followed by the emails of the
  secondaries in that order, each string once, at the place of its first occurrence; the
  phone list is built the same way. A field is present when it is a non-empty string:
  the code tests it for truthiness.
\<close>

theorem view_of_single_primary_membership:
  assumes "filter (\<lambda>c. linkPrecedence c = Primary) contacts = [p]"
  shows "buildConsolidatedContact contacts =
    (let secs = sort_key createdAt (filter (\<lambda>c. linkPrecedence c = Secondary) contacts) in
     Inr \<lparr>primaryContactId = id_c p,
          emails = fromSet (given (email p) @ concat (map (\<lambda>c. given (email c)) secs)),
          phoneNumbers =
            fromSet (given (phoneNumber p) @ concat (map (\<lambda>c. given (phoneNumber c)) secs)),
          secondaryContactIds = map id_c secs\<rparr>)"
proof -
  have "filter (\<lambda>c. linkPrecedence c = Primary) (sort_key createdAt contacts) = [p]"
    using assms by (simp add: filter_sort)
  then have f: "find (\<lambda>c. linkPrecedence c = Primary) (sort_key createdAt contacts) = Some p"
    by (simp add: find_filter)
  show ?thesis
    unfolding buildConsolidatedContact_def Let_def
    by (simp add: f filter_sort pushNew_Nil fold_pushNew distinct_given)
qed

theorem view_of_single_primary_membership_witness:
  "filter (\<lambda>c. linkPrecedence c = Primary)
     [\<lparr>id_c = 2, phoneNumber = Some ''123'', email = Some ''b'', linkedId = Some 1,
       linkPrecedence = Secondary, createdAt = 30, updatedAt = 30, deletedAt = None\<rparr>,
      \<lparr>id_c = 1, phoneNumber = Some ''123'', email = Some ''a'', linkedId = None,
       linkPrecedence = Primary, createdAt = 10, updatedAt = 10, deletedAt = None\<rparr>,
      \<lparr>id_c = 3, phoneNumber = Some ''456'', email = Some ''a'', linkedId = Some 1,
       linkPrecedence = Secondary, createdAt = 20, updatedAt = 20, deletedAt = None\<rparr>]
   = [\<lparr>id_c = 1, phoneNumber = Some ''123'', email = Some ''a'', linkedId = None,
       linkPrecedence = Primary, createdAt = 10, updatedAt = 10, deletedAt = None\<rparr>]
   \<and> buildConsolidatedContact
     [\<lparr>id_c = 2, phoneNumber = Some ''123'', email = Some ''b'', linkedId = Some 1,
       linkPrecedence = Secondary, createdAt = 30, updatedAt = 30, deletedAt = None\<rparr>,
      \<lparr>id_c = 1, phoneNumber = Some ''123'', email = Some ''a'', linkedId = None,
       linkPrecedence = Primary, createdAt = 10, updatedAt = 10, deletedAt = None\<rparr>,
      \<lparr>id_c = 3, phoneNumber = Some ''456'', email = Some ''a'', linkedId = Some 1,
       linkPrecedence = Secondary, createdAt = 20, updatedAt = 20, deletedAt = None\<rparr>]
   = Inr \<lparr>primaryContactId = 1, emails = [''a'', ''b''], phoneNumbers = [''123'', ''456''],
          secondaryContactIds = [3, 2]\<rparr>"
  using view_of_single_primary_membership
    [of "[\<lparr>id_c = 2, phoneNumber = Some ''123'', email = Some ''b'', linkedId = Some 1,
       linkPrecedence = Secondary, createdAt = 30, updatedAt = 30, deletedAt = None\<rparr>,
      \<lparr>id_c = 1, phoneNumber = Some ''123'', email = Some ''a'', linkedId = None,
       linkPrecedence = Primary, createdAt = 10, updatedAt = 10, deletedAt = None\<rparr>,
      \<lparr>id_c = 3, phoneNumber = Some ''456'', email = Some ''a'', linkedId = Some 1,
       linkPrecedence = Secondary, createdAt = 20, updatedAt = 20, deletedAt = None\<rparr>]"
     "\<lparr>id_c = 1, phoneNumber = Some ''123'', email = Some ''a'', linkedId = None,
       linkPrecedence = Primary, createdAt = 10, updatedAt = 10, deletedAt = None\<rparr>"]
  by (simp add: given_def)

section \<open>The Store when no call fails\<close>

lemma sqlite_nofault: "faults s = [] \<Longrightarrow> sqlite s = (s, False)"
  by (simp add: sqlite_def)

lemma findContacts_nofault:
  "faults s = [] \<Longrightarrow> findContactsByEmailOrPhone em ph s = (s, Inr (candidates em ph (rows s)))"
  by (simp add: findContactsByEmailOrPhone_def dbAll_def sqlite_nofault candidates_def)

lemma findAllLinked_nofault:
  "faults s = [] \<Longrightarrow> findAllLinkedContacts p s = (s, Inr (linkedRows p (rows s)))"
  by (simp add: findAllLinkedContacts_def sqlite_nofault)

lemma fetchGroups_nofault:
  "faults s = [] \<Longrightarrow> fetchGroups ps s = (s, Inr (map (\<lambda>p. linkedRows p (rows s)) ps))"
  by (induction ps) (simp_all add: findAllLinked_nofault)

lemma updateContact_nofault:
  "faults s = [] \<Longrightarrow> u_linkedId u \<noteq> None \<or> u_linkPrecedence u \<noteq> None \<Longrightarrow>
   updateContact clk i u s = (s\<lparr>rows := updateRows clk u {i} (rows s)\<rparr>, Inr ())"
  by (auto simp add: updateContact_def sqlite_nofault updateRows_def)

lemma applyUpdates_idem: "applyUpdates clk u (applyUpdates clk u c) = applyUpdates clk u c"
  by (simp add: applyUpdates_def Let_def split: option.splits)

lemma id_applyUpdates [simp]: "id_c (applyUpdates clk u c) = id_c c"
  by (simp add: applyUpdates_def Let_def split: option.splits)

lemma updateRows_updateRows:
  "updateRows clk u B (updateRows clk u A rs) = updateRows clk u (A \<union> B) rs"
  by (auto simp: updateRows_def applyUpdates_idem)

lemma updateRows_empty [simp]: "updateRows clk u {} rs = rs"
  by (simp add: updateRows_def)

lemma await_Inr [simp]: "await (s, Inr x) k = k x s"
  by (simp add: await_def)

lemma await_Inl [simp]: "await (s, Inl e) k = (s, Inl e)"
  by (simp add: await_def)

section \<open>The loops of the merge\<close>

lemma demoteLoop_nofault:
  assumes "faults s = []" "distinct is" "\<forall>i\<in>set is. i < length mem"
  shows "\<exists>mem'. demoteLoop clk oid is mem s =
           (s\<lparr>rows := updateRows clk \<lparr>u_linkedId = Some oid, u_linkPrecedence = Some Secondary\<rparr>
                          (set (filter (\<lambda>k. k \<noteq> oid) (map (\<lambda>i. id_c (mem ! i)) is))) (rows s)\<rparr>,
            Inr mem')
         \<and> length mem' = length mem
         \<and> (\<forall>j<length mem. mem' ! j =
               (if j \<in> set is \<and> id_c (mem ! j) \<noteq> oid
                then (mem ! j)\<lparr>linkedId := Some oid, linkPrecedence := Secondary\<rparr> else mem ! j))"
  using assms
proof (induction "is" arbitrary: mem s)
  case Nil
  then show ?case by simp
next
  case (Cons i "is")
  let ?u = "\<lparr>u_linkedId = Some oid, u_linkPrecedence = Some Secondary\<rparr>"
  show ?case
  proof (cases "id_c (mem ! i) = oid")
    case True
    from Cons.IH [of s mem] Cons.prems obtain mem' where
      m: "demoteLoop clk oid is mem s =
           (s\<lparr>rows := updateRows clk ?u
                          (set (filter (\<lambda>k. k \<noteq> oid) (map (\<lambda>i. id_c (mem ! i)) is))) (rows s)\<rparr>,
            Inr mem')"
         "length mem' = length mem"
         "\<forall>j<length mem. mem' ! j =
               (if j \<in> set is \<and> id_c (mem ! j) \<noteq> oid
                then (mem ! j)\<lparr>linkedId := Some oid, linkPrecedence := Secondary\<rparr> else mem ! j)"
      by auto
    have "demoteLoop clk oid (i # is) mem s = demoteLoop clk oid is mem s"
      using True by simp
    moreover have "filter (\<lambda>k. k \<noteq> oid) (map (\<lambda>i. id_c (mem ! i)) (i # is))
        = filter (\<lambda>k. k \<noteq> oid) (map (\<lambda>i. id_c (mem ! i)) is)"
      using True by simp
    moreover have "\<forall>j<length mem. mem' ! j =
               (if j \<in> set (i # is) \<and> id_c (mem ! j) \<noteq> oid
                then (mem ! j)\<lparr>linkedId := Some oid, linkPrecedence := Secondary\<rparr> else mem ! j)"
      using m(3) True by auto
    ultimately show ?thesis using m(1,2) by metis
  next
    case False
    let ?mem1 = "mem[i := (mem ! i)\<lparr>linkedId := Some oid, linkPrecedence := Secondary\<rparr>]"
    let ?s1 = "s\<lparr>rows := updateRows clk ?u {id_c (mem ! i)} (rows s)\<rparr>"
    have i: "i < length mem" "i \<notin> set is" using Cons.prems by auto
    have idp: "\<And>j. j < length mem \<Longrightarrow> id_c (?mem1 ! j) = id_c (mem ! j)"
      using i by (simp add: nth_list_update)
    have eq1: "map (\<lambda>j. id_c (?mem1 ! j)) is = map (\<lambda>j. id_c (mem ! j)) is"
      using Cons.prems(3) idp by (intro map_cong) auto
    have pre: "faults ?s1 = []" "distinct is" "\<forall>j\<in>set is. j < length ?mem1"
      using Cons.prems by auto
    from Cons.IH [OF pre] obtain mem' where
      m: "demoteLoop clk oid is ?mem1 ?s1 =
           (?s1\<lparr>rows := updateRows clk ?u
                          (set (filter (\<lambda>k. k \<noteq> oid) (map (\<lambda>i. id_c (?mem1 ! i)) is))) (rows ?s1)\<rparr>,
            Inr mem')"
         "length mem' = length ?mem1"
         "\<forall>j<length ?mem1. mem' ! j =
               (if j \<in> set is \<and> id_c (?mem1 ! j) \<noteq> oid
                then (?mem1 ! j)\<lparr>linkedId := Some oid, linkPrecedence := Secondary\<rparr> else ?mem1 ! j)"
      by blast
    have step: "demoteLoop clk oid (i # is) mem s = demoteLoop clk oid is ?mem1 ?s1"
      using False Cons.prems(1) by (simp add: updateContact_nofault)
    have r: "?s1\<lparr>rows := updateRows clk ?u
                          (set (filter (\<lambda>k. k \<noteq> oid) (map (\<lambda>i. id_c (?mem1 ! i)) is))) (rows ?s1)\<rparr>
           = s\<lparr>rows := updateRows clk ?u
                   (set (filter (\<lambda>k. k \<noteq> oid) (map (\<lambda>i. id_c (mem ! i)) (i # is)))) (rows s)\<rparr>"
      using False unfolding eq1 by (simp add: updateRows_updateRows)
    have n: "\<forall>j<length mem. mem' ! j =
               (if j \<in> set (i # is) \<and> id_c (mem ! j) \<noteq> oid
                then (mem ! j)\<lparr>linkedId := Some oid, linkPrecedence := Secondary\<rparr> else mem ! j)"
      using m(3) i False by (auto simp: nth_list_update)
    show ?thesis
      unfolding step using m(1,2) n r by (metis length_list_update)
  qed
qed

lemma relinkLoop_nofault:
  assumes "faults s = []" "distinct is" "\<forall>i\<in>set is. i < length mem"
  shows "\<exists>mem'. relinkLoop clk oid is mem s =
           (s\<lparr>rows := updateRows clk \<lparr>u_linkedId = Some oid, u_linkPrecedence = None\<rparr>
                          (set (map (\<lambda>i. id_c (mem ! i))
                                 (filter (\<lambda>i. linkedId (mem ! i) \<noteq> Some oid) is))) (rows s)\<rparr>,
            Inr mem')
         \<and> length mem' = length mem
         \<and> (\<forall>j<length mem. mem' ! j =
               (if j \<in> set is \<and> linkedId (mem ! j) \<noteq> Some oid
                then (mem ! j)\<lparr>linkedId := Some oid\<rparr> else mem ! j))"
  using assms
proof (induction "is" arbitrary: mem s)
  case Nil
  then show ?case by simp
next
  case (Cons i "is")
  let ?u = "\<lparr>u_linkedId = Some oid, u_linkPrecedence = None\<rparr>"
  show ?case
  proof (cases "linkedId (mem ! i) = Some oid")
    case True
    from Cons.IH [of s mem] Cons.prems obtain mem' where
      m: "relinkLoop clk oid is mem s =
           (s\<lparr>rows := updateRows clk ?u
                          (set (map (\<lambda>i. id_c (mem ! i))
                                 (filter (\<lambda>i. linkedId (mem ! i) \<noteq> Some oid) is))) (rows s)\<rparr>,
            Inr mem')"
         "length mem' = length mem"
         "\<forall>j<length mem. mem' ! j =
               (if j \<in> set is \<and> linkedId (mem ! j) \<noteq> Some oid
                then (mem ! j)\<lparr>linkedId := Some oid\<rparr> else mem ! j)"
      by auto
    have "relinkLoop clk oid (i # is) mem s = relinkLoop clk oid is mem s"
      using True by simp
    moreover have "filter (\<lambda>i. linkedId (mem ! i) \<noteq> Some oid) (i # is)
        = filter (\<lambda>i. linkedId (mem ! i) \<noteq> Some oid) is"
      using True by simp
    moreover have "\<forall>j<length mem. mem' ! j =
               (if j \<in> set (i # is) \<and> linkedId (mem ! j) \<noteq> Some oid
                then (mem ! j)\<lparr>linkedId := Some oid\<rparr> else mem ! j)"
      using m(3) True by auto
    ultimately show ?thesis using m(1,2) by metis
  next
    case False
    let ?mem1 = "mem[i := (mem ! i)\<lparr>linkedId := Some oid\<rparr>]"
    let ?s1 = "s\<lparr>rows := updateRows clk ?u {id_c (mem ! i)} (rows s)\<rparr>"
    have i: "i < length mem" "i \<notin> set is" using Cons.prems by auto
    have same: "\<And>j. j \<in> set is \<Longrightarrow> ?mem1 ! j = mem ! j"
      using i by (auto simp: nth_list_update)
    have eq0: "filter (\<lambda>j. linkedId (?mem1 ! j) \<noteq> Some oid) is
             = filter (\<lambda>j. linkedId (mem ! j) \<noteq> Some oid) is"
      using same by (intro filter_cong) auto
    have eq1: "map (\<lambda>j. id_c (?mem1 ! j)) (filter (\<lambda>j. linkedId (mem ! j) \<noteq> Some oid) is)
             = map (\<lambda>j. id_c (mem ! j)) (filter (\<lambda>j. linkedId (mem ! j) \<noteq> Some oid) is)"
      using same by (intro map_cong) auto
    have pre: "faults ?s1 = []" "distinct is" "\<forall>j\<in>set is. j < length ?mem1"
      using Cons.prems by auto
    from Cons.IH [OF pre] obtain mem' where
      m: "relinkLoop clk oid is ?mem1 ?s1 =
           (?s1\<lparr>rows := updateRows clk ?u
                          (set (map (\<lambda>i. id_c (?mem1 ! i))
                                 (filter (\<lambda>i. linkedId (?mem1 ! i) \<noteq> Some oid) is))) (rows ?s1)\<rparr>,
            Inr mem')"
         "length mem' = length ?mem1"
         "\<forall>j<length ?mem1. mem' ! j =
               (if j \<in> set is \<and> linkedId (?mem1 ! j) \<noteq> Some oid
                then (?mem1 ! j)\<lparr>linkedId := Some oid\<rparr> else ?mem1 ! j)"
      by blast
    have step: "relinkLoop clk oid (i # is) mem s = relinkLoop clk oid is ?mem1 ?s1"
      using False Cons.prems(1) by (simp add: updateContact_nofault)
    have r: "?s1\<lparr>rows := updateRows clk ?u
                          (set (map (\<lambda>i. id_c (?mem1 ! i))
                                 (filter (\<lambda>i. linkedId (?mem1 ! i) \<noteq> Some oid) is))) (rows ?s1)\<rparr>
           = s\<lparr>rows := updateRows clk ?u
                   (set (map (\<lambda>i. id_c (mem ! i))
                          (filter (\<lambda>i. linkedId (mem ! i) \<noteq> Some oid) (i # is)))) (rows s)\<rparr>"
      using False unfolding eq0 eq1 by (simp add: updateRows_updateRows)
    have n: "\<forall>j<length mem. mem' ! j =
               (if j \<in> set (i # is) \<and> linkedId (mem ! j) \<noteq> Some oid
                then (mem ! j)\<lparr>linkedId := Some oid\<rparr> else mem ! j)"
      using m(3) i False same by (auto simp: nth_list_update)
    show ?thesis
      unfolding step using m(1,2) n r by (metis length_list_update)
  qed
qed

lemma map_nth_filter_upt:
  "map ((!) xs) (filter (\<lambda>i. P (xs ! i)) [0..<length xs]) = filter P xs"
proof -
  have "filter P (map ((!) xs) [0..<length xs]) = filter P xs"
    by (simp add: map_nth)
  then show ?thesis by (simp add: filter_map comp_def)
qed

lemma map_insort_key:
  "map g (insort_key (\<lambda>i. f (g i)) x xs) = insort_key f (g x) (map g xs)"
  by (induction xs) auto

lemma map_sort_key: "map g (sort_key (\<lambda>i. f (g i)) xs) = sort_key f (map g xs)"
  by (induction xs) (auto simp: map_insort_key)

lemma map_nth_sortedPrimaries:
  "map ((!) M) (sortedPrimaries M) = sort_key createdAt (filter (\<lambda>c. linkPrecedence c = Primary) M)"
  unfolding sortedPrimaries_def
  using map_sort_key [of "(!) M" createdAt] map_nth_filter_upt [of M "\<lambda>c. linkPrecedence c = Primary"]
  by simp

lemma set_sortedPrimaries:
  "set (sortedPrimaries M) = {i. i < length M \<and> linkPrecedence (M ! i) = Primary}"
  by (auto simp: sortedPrimaries_def)

lemma distinct_sortedPrimaries: "distinct (sortedPrimaries M)"
  by (simp add: sortedPrimaries_def)

lemma set_secondaries:
  "set (secondaries M) = {i. i < length M \<and> linkPrecedence (M ! i) = Secondary}"
  by (auto simp: secondaries_def)

lemma distinct_secondaries: "distinct (secondaries M)"
  by (simp add: secondaries_def)

lemma map_nth_secondaries:
  "map ((!) M) (secondaries M) = filter (\<lambda>c. linkPrecedence c = Secondary) M"
  unfolding secondaries_def
  using map_nth_filter_upt [of M "\<lambda>c. linkPrecedence c = Secondary"] by simp

lemma secondaries_Nil: "secondaries M = [] \<longleftrightarrow> (\<forall>c\<in>set M. linkPrecedence c = Primary)"
proof -
  have "secondaries M = [] \<longleftrightarrow> map ((!) M) (secondaries M) = []" by simp
  also have "\<dots> \<longleftrightarrow> filter (\<lambda>c. linkPrecedence c = Secondary) M = []"
    by (simp only: map_nth_secondaries)
  also have "\<dots> \<longleftrightarrow> (\<forall>c\<in>set M. linkPrecedence c = Primary)"
    by (auto simp: filter_empty_conv) (metis precedence.exhaust)+
  finally show ?thesis .
qed

lemma sortedPrimaries_Nil: "sortedPrimaries M = [] \<longleftrightarrow> filter (\<lambda>c. linkPrecedence c = Primary) M = []"
proof -
  have "sortedPrimaries M = [] \<longleftrightarrow> map ((!) M) (sortedPrimaries M) = []" by simp
  also have "\<dots> \<longleftrightarrow> filter (\<lambda>c. linkPrecedence c = Primary) M = []"
    unfolding map_nth_sortedPrimaries by (metis length_0_conv length_sort)
  finally show ?thesis .
qed

section \<open>Closed form of identify\<close>

lemma createContact_nofault:
  "faults s = [] \<Longrightarrow> createContact clk d s =
     (s\<lparr>rows := rows s @ [newRow clk (nextId s) d], seq := nextId s\<rparr>, Inr (newObj clk (nextId s) d))"
  by (simp add: createContact_def sqlite_nofault Let_def newRow_def newObj_def)

lemma map_id_updateRows [simp]: "map id_c (updateRows clk u A rs) = map id_c rs"
  by (simp add: updateRows_def)

lemma nextId_rows_cong: "map id_c (rows s') = map id_c (rows s) \<Longrightarrow> seq s' = seq s \<Longrightarrow> nextId s' = nextId s"
  by (simp add: nextId_def)

lemma needsNew_cong:
  assumes "map email M' = map email M" "map phoneNumber M' = map phoneNumber M"
  shows "needsNewSecondaryContact M' em ph = needsNewSecondaryContact M em ph"
proof -
  have "\<And>P. list_ex (\<lambda>c. P (email c) (phoneNumber c)) M' = list_ex (\<lambda>c. P (email c) (phoneNumber c)) M"
  proof -
    fix P :: "string option \<Rightarrow> string option \<Rightarrow> bool"
    have "list_ex (\<lambda>c. P (email c) (phoneNumber c)) M' = list_ex (\<lambda>(e, p). P e p) (zip (map email M') (map phoneNumber M'))"
      by (induction M') auto
    also have "\<dots> = list_ex (\<lambda>(e, p). P e p) (zip (map email M) (map phoneNumber M))"
      using assms by simp
    also have "\<dots> = list_ex (\<lambda>c. P (email c) (phoneNumber c)) M"
      by (induction M) auto
    finally show "list_ex (\<lambda>c. P (email c) (phoneNumber c)) M' = list_ex (\<lambda>c. P (email c) (phoneNumber c)) M" .
  qed
  note a = this
  show ?thesis
    unfolding needsNewSecondaryContact_def Let_def
    using a [of "\<lambda>e p. e = orNull em \<and> p = orNull ph"] a [of "\<lambda>e p. e = em"] a [of "\<lambda>e p. p = ph"]
    by simp
qed

lemma email_demoteObj [simp]: "email (demoteObj oid c) = email c"
  and phone_demoteObj [simp]: "phoneNumber (demoteObj oid c) = phoneNumber c"
  and id_demoteObj [simp]: "id_c (demoteObj oid c) = id_c c"
  and createdAt_demoteObj [simp]: "createdAt (demoteObj oid c) = createdAt c"
  by (simp_all add: demoteObj_def)

lemma email_relinkObj [simp]: "email (relinkObj oid c) = email c"
  and phone_relinkObj [simp]: "phoneNumber (relinkObj oid c) = phoneNumber c"
  and id_relinkObj [simp]: "id_c (relinkObj oid c) = id_c c"
  and createdAt_relinkObj [simp]: "createdAt (relinkObj oid c) = createdAt c"
  and prec_relinkObj [simp]: "linkPrecedence (relinkObj oid c) = linkPrecedence c"
  by (simp_all add: relinkObj_def)

lemma relinkedIds_demoted: "relinkedIds oid (map (demoteObj oid) M) = relinkedIds oid M"
proof -
  have "{c \<in> set (map (demoteObj oid) M). linkPrecedence c = Secondary \<and> linkedId c \<noteq> Some oid}
      = {c \<in> set M. linkPrecedence c = Secondary \<and> linkedId c \<noteq> Some oid}"
    by (auto simp: demoteObj_def image_iff split: if_splits)
  then show ?thesis by (simp add: relinkedIds_def)
qed

lemma demoteLoop_sortedPrimaries:
  assumes "faults s = []"
  shows "demoteLoop clk oid (sortedPrimaries M) M s =
     (s\<lparr>rows := updateRows clk \<lparr>u_linkedId = Some oid, u_linkPrecedence = Some Secondary\<rparr>
                   (demotedIds oid M) (rows s)\<rparr>,
      Inr (map (demoteObj oid) M))"
proof -
  have b: "\<forall>i\<in>set (sortedPrimaries M). i < length M" by (simp add: set_sortedPrimaries)
  from demoteLoop_nofault [OF assms distinct_sortedPrimaries b, of clk oid] obtain mem' where
    m: "demoteLoop clk oid (sortedPrimaries M) M s =
           (s\<lparr>rows := updateRows clk \<lparr>u_linkedId = Some oid, u_linkPrecedence = Some Secondary\<rparr>
                (set (filter (\<lambda>k. k \<noteq> oid) (map (\<lambda>i. id_c (M ! i)) (sortedPrimaries M)))) (rows s)\<rparr>,
            Inr mem')"
       "length mem' = length M"
       "\<forall>j<length M. mem' ! j =
               (if j \<in> set (sortedPrimaries M) \<and> id_c (M ! j) \<noteq> oid
                then (M ! j)\<lparr>linkedId := Some oid, linkPrecedence := Secondary\<rparr> else M ! j)"
    by blast
  have "mem' = map (demoteObj oid) M"
    using m(2,3) by (intro nth_equalityI) (auto simp: set_sortedPrimaries demoteObj_def)
  moreover have "set (filter (\<lambda>k. k \<noteq> oid) (map (\<lambda>i. id_c (M ! i)) (sortedPrimaries M))) = demotedIds oid M"
    by (auto simp: set_sortedPrimaries demotedIds_def in_set_conv_nth image_iff)
  ultimately show ?thesis using m(1) by simp
qed

lemma relinkLoop_secondaries:
  assumes "faults s = []"
  shows "relinkLoop clk oid (secondaries M) M s =
     (s\<lparr>rows := updateRows clk \<lparr>u_linkedId = Some oid, u_linkPrecedence = None\<rparr>
                   (relinkedIds oid M) (rows s)\<rparr>,
      Inr (map (relinkObj oid) M))"
proof -
  have b: "\<forall>i\<in>set (secondaries M). i < length M" by (simp add: set_secondaries)
  from relinkLoop_nofault [OF assms distinct_secondaries b, of clk oid] obtain mem' where
    m: "relinkLoop clk oid (secondaries M) M s =
           (s\<lparr>rows := updateRows clk \<lparr>u_linkedId = Some oid, u_linkPrecedence = None\<rparr>
                (set (map (\<lambda>i. id_c (M ! i))
                       (filter (\<lambda>i. linkedId (M ! i) \<noteq> Some oid) (secondaries M)))) (rows s)\<rparr>,
            Inr mem')"
       "length mem' = length M"
       "\<forall>j<length M. mem' ! j =
               (if j \<in> set (secondaries M) \<and> linkedId (M ! j) \<noteq> Some oid
                then (M ! j)\<lparr>linkedId := Some oid\<rparr> else M ! j)"
    by blast
  have "mem' = map (relinkObj oid) M"
    using m(2,3) by (intro nth_equalityI) (auto simp: set_secondaries relinkObj_def)
  moreover have "set (map (\<lambda>i. id_c (M ! i))
                       (filter (\<lambda>i. linkedId (M ! i) \<noteq> Some oid) (secondaries M))) = relinkedIds oid M"
    by (auto simp: set_secondaries relinkedIds_def in_set_conv_nth image_iff)
  ultimately show ?thesis using m(1) by simp
qed

lemma hd_sortedPrimaries:
  "sortedPrimaries M = i0 # rest \<Longrightarrow> M ! i0 = oldestPrimary M"
  using map_nth_sortedPrimaries [of M] by (auto simp: oldestPrimary_def dest: arg_cong [where f = hd])

lemma merge_nofault:
  assumes nf: "faults s = []"
    and ne: "filter (\<lambda>c. linkPrecedence c = Primary) (membership P (rows s)) \<noteq> []"
  shows "mergePrimaryContacts clk P em ph s =
    (let M = membership P (rows s); oid = id_c (oldestPrimary M) in
     if needsNewSecondaryContact M em ph then
       (s\<lparr>rows := mergedRows clk oid M (rows s) @ [newRow clk (nextId s) (secondaryData em ph oid)],
          seq := nextId s\<rparr>,
        buildConsolidatedContact (mergedObjs oid M @ [newObj clk (nextId s) (secondaryData em ph oid)]))
     else (s\<lparr>rows := mergedRows clk oid M (rows s)\<rparr>, buildConsolidatedContact (mergedObjs oid M)))"
proof -
  let ?M = "membership P (rows s)"
  let ?oid = "id_c (oldestPrimary ?M)"
  from ne obtain i0 rest where sp: "sortedPrimaries ?M = i0 # rest"
    using sortedPrimaries_Nil [of ?M] by (cases "sortedPrimaries ?M") auto
  have o: "id_c (?M ! i0) = ?oid" using hd_sortedPrimaries [OF sp] by simp
  let ?s1 = "s\<lparr>rows := updateRows clk \<lparr>u_linkedId = Some ?oid, u_linkPrecedence = Some Secondary\<rparr>
                   (demotedIds ?oid ?M) (rows s)\<rparr>"
  have l1: "demoteLoop clk ?oid (i0 # rest) ?M s = (?s1, Inr (map (demoteObj ?oid) ?M))"
    using demoteLoop_sortedPrimaries [OF nf, of clk ?oid ?M] sp by simp
  have nf1: "faults ?s1 = []" using nf by simp
  let ?s2 = "s\<lparr>rows := mergedRows clk ?oid ?M (rows s)\<rparr>"
  have l2: "relinkLoop clk ?oid (secondaries (map (demoteObj ?oid) ?M)) (map (demoteObj ?oid) ?M) ?s1
          = (?s2, Inr (mergedObjs ?oid ?M))"
    using relinkLoop_secondaries [OF nf1, of clk ?oid "map (demoteObj ?oid) ?M"]
    by (simp add: relinkedIds_demoted mergedRows_def mergedObjs_def)
  have nf2: "faults ?s2 = []" using nf by simp
  have nn: "needsNewSecondaryContact (mergedObjs ?oid ?M) em ph = needsNewSecondaryContact ?M em ph"
    by (rule needsNew_cong) (simp_all add: mergedObjs_def comp_def)
  have nid: "nextId ?s2 = nextId s"
    by (rule nextId_rows_cong) (simp_all add: mergedRows_def)
  have cr: "createContact clk (secondaryData em ph ?oid) ?s2 =
     (s\<lparr>rows := mergedRows clk ?oid ?M (rows s) @ [newRow clk (nextId s) (secondaryData em ph ?oid)],
        seq := nextId s\<rparr>, Inr (newObj clk (nextId s) (secondaryData em ph ?oid)))"
    using createContact_nofault [OF nf2, of clk "secondaryData em ph ?oid"] by (simp add: nid)
  show ?thesis
    unfolding mergePrimaryContacts_def
    by (simp add: fetchGroups_nofault [OF nf] membership_def [symmetric] sp Let_def o l1 l2 nn
        cr [unfolded secondaryData_def] del: demoteLoop.simps relinkLoop.simps)
       (simp add: secondaryData_def)
qed

lemma find_None_filter: "find P xs = None \<longleftrightarrow> filter P xs = []"
  by (induction xs) auto

lemma build_no_primary:
  "filter (\<lambda>c. linkPrecedence c = Primary) M = [] \<Longrightarrow> buildConsolidatedContact M = Inl NoPrimaryContactFound"
  unfolding buildConsolidatedContact_def Let_def
  by (simp add: find_filter filter_sort)

lemma build_some_primary:
  "filter (\<lambda>c. linkPrecedence c = Primary) M \<noteq> [] \<Longrightarrow> \<exists>v. buildConsolidatedContact M = Inr v"
  unfolding buildConsolidatedContact_def
proof -
  assume a: "filter (\<lambda>c. linkPrecedence c = Primary) M \<noteq> []"
  have "length (sort_key createdAt (filter (\<lambda>c. linkPrecedence c = Primary) M)) \<noteq> 0"
    using a by simp
  then show "\<exists>v. (let contacts = sort_key createdAt M in
      case find (\<lambda>c. linkPrecedence c = Primary) contacts of
        None \<Rightarrow> Inl NoPrimaryContactFound
      | Some primary \<Rightarrow>
          (let secondaryContacts = filter (\<lambda>c. linkPrecedence c = Secondary) contacts in
           Inr \<lparr>primaryContactId = id_c primary,
                emails = fold (\<lambda>c acc. pushNew (email c) acc) secondaryContacts
                           (pushNew (email primary) []),
                phoneNumbers = fold (\<lambda>c acc. pushNew (phoneNumber c) acc) secondaryContacts
                                 (pushNew (phoneNumber primary) []),
                secondaryContactIds = map id_c secondaryContacts\<rparr>)) = Inr v"
    by (cases "sort_key createdAt (filter (\<lambda>c. linkPrecedence c = Primary) M)")
       (auto simp add: find_filter filter_sort Let_def)
qed

lemma merge_nofault_no_primary:
  assumes nf: "faults s = []"
    and ne: "filter (\<lambda>c. linkPrecedence c = Primary) (membership P (rows s)) = []"
  shows "\<exists>e. mergePrimaryContacts clk P em ph s = (s, Inl e)"
proof -
  have sp: "sortedPrimaries (membership P (rows s)) = []"
    using ne by (simp add: sortedPrimaries_Nil)
  show ?thesis
    unfolding mergePrimaryContacts_def
    by (simp add: fetchGroups_nofault [OF nf] membership_def [symmetric] sp Let_def build_no_primary [OF ne])
qed

lemma identify_nofault:
  assumes nf: "faults s = []"
  shows "identify clk req s =
    (let em = r_email req; ph = r_phoneNumber req; C = candidates em ph (rows s) in
     if C = [] then
       (s\<lparr>rows := rows s @ [newRow clk (nextId s) (primaryData em ph)], seq := nextId s\<rparr>,
        buildConsolidatedContact [newObj clk (nextId s) (primaryData em ph)])
     else if allPrimaryIds C = [] then (s, Inl NoPrimaryContactsFound)
     else if length (allPrimaryIds C) = 1 then
       (let M = membership (allPrimaryIds C) (rows s); p = hd (allPrimaryIds C) in
        if needsNewSecondaryContact M em ph then
          (s\<lparr>rows := rows s @ [newRow clk (nextId s) (secondaryData em ph p)], seq := nextId s\<rparr>,
           buildConsolidatedContact (M @ [newObj clk (nextId s) (secondaryData em ph p)]))
        else (s, buildConsolidatedContact M))
     else mergePrimaryContacts clk (allPrimaryIds C) em ph s)"
proof -
  have one: "\<And>P. length P = 1 \<Longrightarrow> membership P (rows s) = linkedRows (hd P) (rows s)"
    by (case_tac P) (auto simp: membership_def)
  show ?thesis
    unfolding identify_def Let_def
    by (simp add: findContacts_nofault [OF nf] createContact_nofault [OF nf]
        findAllLinked_nofault [OF nf] one primaryData_def secondaryData_def)
qed

section \<open>New records and failures of consistency\<close>

lemma needsNew_iff: "needsNewSecondaryContact M em ph \<longleftrightarrow> newInformation M em ph"
  by (auto simp: needsNewSecondaryContact_def newInformation_def Let_def list_ex_iff image_iff)

lemma fold_max_ge: "(a::nat) \<le> fold max xs a \<and> (\<forall>x\<in>set xs. x \<le> fold max xs a)"
proof (induction xs arbitrary: a)
  case Nil
  show ?case by simp
next
  case (Cons x xs)
  from Cons [of "max x a"] show ?case by auto
qed

lemma nextId_fresh: "c \<in> set (rows s) \<Longrightarrow> id_c c < nextId s"
  using fold_max_ge [of "seq s" "map id_c (rows s)"] by (auto simp: nextId_def less_Suc_eq_le)

lemma nextId_notin: "nextId s \<notin> id_c ` set (rows s)"
  using nextId_fresh [of _ s] by (auto simp: image_iff) (metis less_irrefl)

lemma given_orNull [simp]: "given (orNull x) = given x"
  by (simp add: given_def orNull_def truthy_def split: option.splits)

lemma build_single:
  "linkPrecedence c = Primary \<Longrightarrow> buildConsolidatedContact [c] =
     Inr \<lparr>primaryContactId = id_c c, emails = given (email c), phoneNumbers = given (phoneNumber c),
          secondaryContactIds = []\<rparr>"
  by (simp add: buildConsolidatedContact_def pushNew_Nil)

text \<open>
  Claim C5. When no stored record shares the observation's email or phone and no Store
  call fails, \<open>identify\<close> appends exactly one record to the table, with a fresh id,
  precedence \<open>Primary\<close>, no \<open>linkedId\<close> and the observation's email and phone (an empty
  string counts as absent), and returns the view of that record alone: its id, its
  present fields, and no secondary id.
\<close>

theorem no_match_creates_primary:
  assumes "faults s = []"
    and "candidates (r_email req) (r_phoneNumber req) (rows s) = []"
  shows "identify clk req s =
    (s\<lparr>rows := rows s @
          [\<lparr>id_c = nextId s, phoneNumber = orNull (r_phoneNumber req),
            email = orNull (r_email req), linkedId = None, linkPrecedence = Primary,
            createdAt = dbNow clk, updatedAt = dbNow clk, deletedAt = None\<rparr>],
        seq := nextId s\<rparr>,
     Inr \<lparr>primaryContactId = nextId s, emails = given (r_email req),
          phoneNumbers = given (r_phoneNumber req), secondaryContactIds = []\<rparr>)
    \<and> nextId s \<notin> id_c ` set (rows s)"
  using assms nextId_notin [of s]
  by (simp add: identify_nofault Let_def build_single newObj_def newRow_def primaryData_def)

theorem no_match_creates_primary_witness:
  "faults emptyStore = []
   \<and> candidates (Some ''lorraine@x'') (Some ''123'') (rows emptyStore) = []
   \<and> identify clock0 \<lparr>r_email = Some ''lorraine@x'', r_phoneNumber = Some ''123''\<rparr> emptyStore =
      (\<lparr>rows = [\<lparr>id_c = 1, phoneNumber = Some ''123'', email = Some ''lorraine@x'',
                  linkedId = None, linkPrecedence = Primary,
                  createdAt = 1000, updatedAt = 1000, deletedAt = None\<rparr>],
        seq = 1, faults = []\<rparr>,
       Inr \<lparr>primaryContactId = 1, emails = [''lorraine@x''], phoneNumbers = [''123''],
            secondaryContactIds = []\<rparr>)"
  using no_match_creates_primary
    [of emptyStore "\<lparr>r_email = Some ''lorraine@x'', r_phoneNumber = Some ''123''\<rparr>" clock0]
  by (simp add: emptyStore_def clock0_def candidates_def nextId_def orNull_def truthy_def given_def)

lemma hasPrimary_filter: "hasPrimary M \<longleftrightarrow> filter (\<lambda>c. linkPrecedence c = Primary) M \<noteq> []"
  by (auto simp: hasPrimary_def list_ex_iff filter_empty_conv)

lemma build_fails_iff: "isl (buildConsolidatedContact M) \<longleftrightarrow> \<not> hasPrimary M"
  using build_no_primary [of M] build_some_primary [of M]
  by (cases "filter (\<lambda>c. linkPrecedence c = Primary) M = []") (auto simp: hasPrimary_filter)

lemma hasPrimary_snoc_secondary:
  "linkPrecedence c = Secondary \<Longrightarrow> hasPrimary (M @ [c]) = hasPrimary M"
  by (simp add: hasPrimary_def)

lemma prec_newObj [simp]: "linkPrecedence (newObj clk i d) = d_linkPrecedence d"
  by (simp add: newObj_def)

lemma hasPrimary_mergedObjs:
  "hasPrimary M \<Longrightarrow> hasPrimary (mergedObjs (id_c (oldestPrimary M)) M)"
proof -
  assume a: "hasPrimary M"
  let ?ps = "sort_key createdAt (filter (\<lambda>c. linkPrecedence c = Primary) M)"
  have "length ?ps \<noteq> 0" using a by (simp add: hasPrimary_filter)
  then have "?ps \<noteq> []" by (metis length_0_conv)
  then have "hd ?ps \<in> set ?ps" by (rule hd_in_set)
  then have "hd ?ps \<in> {c \<in> set M. linkPrecedence c = Primary}" by simp
  then have o: "oldestPrimary M \<in> set M" "linkPrecedence (oldestPrimary M) = Primary"
    unfolding oldestPrimary_def by blast+
  have "relinkObj (id_c (oldestPrimary M)) (demoteObj (id_c (oldestPrimary M)) (oldestPrimary M))
        = oldestPrimary M"
    using o by (simp add: demoteObj_def relinkObj_def)
  then have "oldestPrimary M \<in> set (mergedObjs (id_c (oldestPrimary M)) M)"
    using o(1) by (force simp: mergedObjs_def image_iff)
  with o(2) show ?thesis by (auto simp: hasPrimary_def list_ex_iff)
qed

lemma identify_fails_iff:
  assumes nf: "faults s = []"
  shows "isl (snd (identify clk req s)) \<longleftrightarrow>
         candidateSet req s \<noteq> [] \<and> (governingIds req s = [] \<or> \<not> hasPrimary (fullMembership req s))"
proof (cases "candidateSet req s = []")
  case True
  then show ?thesis
    using nf by (simp add: identify_nofault Let_def candidateSet_def build_single newObj_def primaryData_def)
next
  case C: False
  show ?thesis
  proof (cases "governingIds req s = []")
    case True
    then show ?thesis
      using nf C by (simp add: identify_nofault Let_def candidateSet_def governingIds_def)
  next
    case P: False
    show ?thesis
    proof (cases "length (governingIds req s) = 1")
      case True
      then show ?thesis
        using nf C P
        by (simp add: identify_nofault Let_def candidateSet_def governingIds_def fullMembership_def
            build_fails_iff hasPrimary_snoc_secondary secondaryData_def)
    next
      case False
      have m: "identify clk req s =
          mergePrimaryContacts clk (governingIds req s) (r_email req) (r_phoneNumber req) s"
        using nf C P False
        by (simp add: identify_nofault Let_def candidateSet_def governingIds_def)
      show ?thesis
      proof (cases "hasPrimary (fullMembership req s)")
        case True
        then have ne: "filter (\<lambda>c. linkPrecedence c = Primary) (membership (governingIds req s) (rows s)) \<noteq> []"
          by (simp add: hasPrimary_filter fullMembership_def)
        have "hasPrimary (mergedObjs (id_c (oldestPrimary (fullMembership req s))) (fullMembership req s))"
          using True by (rule hasPrimary_mergedObjs)
        then show ?thesis
          using C P True unfolding m merge_nofault [OF nf ne] Let_def
          by (simp add: fullMembership_def build_fails_iff hasPrimary_snoc_secondary secondaryData_def)
      next
        case F: False
        then have ne: "filter (\<lambda>c. linkPrecedence c = Primary) (membership (governingIds req s) (rows s)) = []"
          by (simp add: hasPrimary_filter fullMembership_def)
        from merge_nofault_no_primary [OF nf ne] obtain e where
          "mergePrimaryContacts clk (governingIds req s) (r_email req) (r_phoneNumber req) s = (s, Inl e)"
          by blast
        then show ?thesis using C P F m by simp
      qed
    qed
  qed
qed

lemma merge_hasPrimary:
  assumes "faults s = []" and "hasPrimary (membership P (rows s))"
  shows "mergePrimaryContacts clk P em ph s =
        (let M = membership P (rows s); oid = id_c (oldestPrimary M) in
         if needsNewSecondaryContact M em ph then
           (s\<lparr>rows := mergedRows clk oid M (rows s) @ [newRow clk (nextId s) (secondaryData em ph oid)],
              seq := nextId s\<rparr>,
            buildConsolidatedContact (mergedObjs oid M @ [newObj clk (nextId s) (secondaryData em ph oid)]))
         else (s\<lparr>rows := mergedRows clk oid M (rows s)\<rparr>, buildConsolidatedContact (mergedObjs oid M)))"
  using assms merge_nofault [of s P clk em ph] by (simp add: hasPrimary_filter)

lemma merge_noPrimary:
  assumes "faults s = []" and "\<not> hasPrimary (membership P (rows s))"
  shows "\<exists>e. mergePrimaryContacts clk P em ph s = (s, Inl e)"
  using assms merge_nofault_no_primary [of s P clk em ph] by (simp add: hasPrimary_filter)

lemma map_id_mergedRows [simp]: "map id_c (mergedRows clk oid M rs) = map id_c rs"
  by (simp add: mergedRows_def)

text \<open>
  Claim C6. When the observation matches some record and a member of the matched
  membership already has exactly its (email, phone) pair, \<open>identify\<close> adds no record:
  the table holds the same ids, in the same order, as before (in a merge the links of
  records may still be rewritten).
\<close>

theorem exact_pair_creates_no_record:
  assumes "faults s = []"
    and "candidateSet req s \<noteq> []"
    and "\<exists>m\<in>set (fullMembership req s).
           email m = orNull (r_email req) \<and> phoneNumber m = orNull (r_phoneNumber req)"
  shows "map id_c (rows (fst (identify clk req s))) = map id_c (rows s)"
proof -
  have nn: "\<not> needsNewSecondaryContact (membership (governingIds req s) (rows s))
               (r_email req) (r_phoneNumber req)"
    using assms(3) by (simp add: needsNew_iff newInformation_def fullMembership_def)
  show ?thesis
  proof (cases "governingIds req s = [] \<or> length (governingIds req s) = 1")
    case True
    then show ?thesis
      using assms(1,2) nn
      by (auto simp add: identify_nofault Let_def candidateSet_def governingIds_def)
  next
    case False
    then have m: "identify clk req s =
        mergePrimaryContacts clk (governingIds req s) (r_email req) (r_phoneNumber req) s"
      using assms(1,2)
      by (auto simp add: identify_nofault Let_def candidateSet_def governingIds_def)
    show ?thesis
    proof (cases "hasPrimary (membership (governingIds req s) (rows s))")
      case True
      show ?thesis
        unfolding m merge_hasPrimary [OF assms(1) True] by (simp add: nn Let_def)
    next
      case False
      from merge_noPrimary [OF assms(1) False] show ?thesis
        unfolding m by (metis fst_conv)
    qed
  qed
qed

theorem exact_pair_creates_no_record_witness:
  "faults lorraineStore = []
   \<and> candidateSet \<lparr>r_email = Some ''lorraine@x'', r_phoneNumber = Some ''123''\<rparr> lorraineStore
       = [lorraine]
   \<and> email lorraine = orNull (Some ''lorraine@x'') \<and> phoneNumber lorraine = orNull (Some ''123'')
   \<and> fullMembership \<lparr>r_email = Some ''lorraine@x'', r_phoneNumber = Some ''123''\<rparr> lorraineStore
       = [lorraine]
   \<and> map id_c (rows (fst (identify clock0
         \<lparr>r_email = Some ''lorraine@x'', r_phoneNumber = Some ''123''\<rparr> lorraineStore))) = [1]"
  using exact_pair_creates_no_record
    [of lorraineStore "\<lparr>r_email = Some ''lorraine@x'', r_phoneNumber = Some ''123''\<rparr>" clock0]
  by (simp add: notion_defs eval_defs lorraineStore_def lorraine_def)

text \<open>
  Claim C10. When the observation matches exactly one identity (one governing primary id)
  and fails the new-information test, \<open>identify\<close> returns the Store as it found it, every
  field of every record included, together with the view of the fetched membership.
\<close>

theorem single_identity_without_new_information_is_read_only:
  assumes "faults s = []"
    and "candidateSet req s \<noteq> []"
    and "length (governingIds req s) = 1"
    and "\<not> newInformation (fullMembership req s) (r_email req) (r_phoneNumber req)"
  shows "identify clk req s = (s, buildConsolidatedContact (fullMembership req s))"
  using assms
  by (auto simp add: identify_nofault Let_def candidateSet_def governingIds_def fullMembership_def
      needsNew_iff)

theorem single_identity_without_new_information_is_read_only_witness:
  "faults lorraineStore = []
   \<and> candidateSet \<lparr>r_email = None, r_phoneNumber = Some ''123''\<rparr> lorraineStore = [lorraine]
   \<and> length (governingIds \<lparr>r_email = None, r_phoneNumber = Some ''123''\<rparr> lorraineStore) = 1
   \<and> \<not> newInformation (fullMembership \<lparr>r_email = None, r_phoneNumber = Some ''123''\<rparr> lorraineStore)
          None (Some ''123'')
   \<and> identify clock0 \<lparr>r_email = None, r_phoneNumber = Some ''123''\<rparr> lorraineStore =
       (lorraineStore,
        Inr \<lparr>primaryContactId = 1, emails = [''lorraine@x''], phoneNumbers = [''123''],
             secondaryContactIds = []\<rparr>)"
  using single_identity_without_new_information_is_read_only
    [of lorraineStore "\<lparr>r_email = None, r_phoneNumber = Some ''123''\<rparr>" clock0]
  by (simp add: notion_defs eval_defs lorraineStore_def lorraine_def)




text \<open>
  Claim C8. With a Store whose calls all succeed, \<open>identify\<close> ends in an error instead
  of a view exactly when the candidate set is non-empty and either the set of governing
  primary ids is empty or the fetched membership holds no record of precedence \<open>Primary\<close>.
  (In a merge the missing primary is met before view assembly, as the \<^verbatim>\<open>TypeError\<close> of
  reading \<^verbatim>\<open>oldestPrimary.id\<close>, unless nothing at all was fetched.)
\<close>

theorem identify_fails_exactly_on_inconsistency:
  assumes "faults s = []"
  shows "(\<exists>e. snd (identify clk req s) = Inl e) \<longleftrightarrow>
         candidateSet req s \<noteq> [] \<and> (governingIds req s = [] \<or> \<not> hasPrimary (fullMembership req s))"
  using identify_fails_iff [OF assms, of clk req] by (simp add: isl_def)

theorem identify_fails_exactly_on_inconsistency_witness:
  "faults orphanStore = []
   \<and> candidateSet \<lparr>r_email = Some ''o@x'', r_phoneNumber = None\<rparr> orphanStore \<noteq> []
   \<and> governingIds \<lparr>r_email = Some ''o@x'', r_phoneNumber = None\<rparr> orphanStore = []
   \<and> snd (identify clock0 \<lparr>r_email = Some ''o@x'', r_phoneNumber = None\<rparr> orphanStore)
       = Inl NoPrimaryContactsFound"
  using identify_fails_exactly_on_inconsistency
    [of orphanStore clock0 "\<lparr>r_email = Some ''o@x'', r_phoneNumber = None\<rparr>"]
  by (simp add: notion_defs eval_defs orphanStore_def)

section \<open>Failures and the writes before them\<close>
















section \<open>The surviving primary\<close>

lemma hd_insort_key:
  "hd (insort_key f x ys) = (if ys = [] \<or> f x \<le> f (hd ys) then x else hd ys)"
  by (cases ys) auto

lemma sort_key_Nil_iff: "sort_key f xs = [] \<longleftrightarrow> xs = []"
  by (metis length_0_conv length_sort)

lemma hd_sort_key_min:
  "xs \<noteq> [] \<Longrightarrow> hd (sort_key f xs) \<in> set xs \<and> (\<forall>d\<in>set xs. f (hd (sort_key f xs)) \<le> f d)"
proof -
  assume a: "xs \<noteq> []"
  let ?ys = "sort_key f xs"
  have ne: "?ys \<noteq> []" using a by (simp add: sort_key_Nil_iff)
  then have "hd ?ys \<in> set ?ys" by (rule hd_in_set)
  moreover have "sorted (map f ?ys)" by simp
  then have "\<forall>d\<in>set ?ys. f (hd ?ys) \<le> f d"
    using ne by (cases ?ys) auto
  ultimately show ?thesis by simp
qed

lemma find_hd_sort_key:
  "xs \<noteq> [] \<Longrightarrow> find (\<lambda>c. \<forall>d\<in>set xs. f c \<le> f d) xs = Some (hd (sort_key f xs))"
proof (induction xs)
  case Nil
  then show ?case by simp
next
  case (Cons x xs)
  show ?case
  proof (cases "xs = []")
    case True
    then show ?thesis by simp
  next
    case False
    note IH = Cons.IH [OF False]
    note m = hd_sort_key_min [OF False, of f]
    show ?thesis
    proof (cases "f x \<le> f (hd (sort_key f xs))")
      case True
      then have "\<forall>d\<in>set xs. f x \<le> f d" using m by force
      then show ?thesis using True by (simp add: hd_insort_key)
    next
      case F: False
      then have nx: "\<not> (\<forall>d\<in>set (x # xs). f x \<le> f d)" using m by auto
      have "find (\<lambda>c. \<forall>d\<in>set (x # xs). f c \<le> f d) xs = find (\<lambda>c. \<forall>d\<in>set xs. f c \<le> f d) xs"
      proof (rule find_cong [OF refl])
        fix c assume "c \<in> set xs"
        show "(\<forall>d\<in>set (x # xs). f c \<le> f d) = (\<forall>d\<in>set xs. f c \<le> f d)"
        proof
          assume r: "\<forall>d\<in>set xs. f c \<le> f d"
          then have "f c \<le> f (hd (sort_key f xs))" using m by blast
          with F have "f c \<le> f x" by simp
          with r show "\<forall>d\<in>set (x # xs). f c \<le> f d" by simp
        qed simp
      qed
      then have "find (\<lambda>c. \<forall>d\<in>set (x # xs). f c \<le> f d) (x # xs) = Some (hd (sort_key f xs))"
        using nx IH by (simp only: find.simps if_False)
      moreover have "hd (sort_key f (x # xs)) = hd (sort_key f xs)"
        using F False by (simp add: hd_insort_key sort_key_Nil_iff)
      ultimately show ?thesis by (simp only:)
    qed
  qed
qed

lemma find_filter_conj:
  "find (\<lambda>c. P c \<and> Q c) xs = find Q (filter P xs)"
  by (induction xs) auto

lemma oldestPrimary_first_earliest:
  assumes "hasPrimary M"
  shows "find (earliestPrimary M) M = Some (oldestPrimary M)"
proof -
  let ?ps = "filter (\<lambda>c. linkPrecedence c = Primary) M"
  have ne: "?ps \<noteq> []" using assms by (simp add: hasPrimary_filter)
  have "find (earliestPrimary M) M = find (\<lambda>c. \<forall>d\<in>set ?ps. createdAt c \<le> createdAt d) ?ps"
    unfolding earliestPrimary_def
    by (simp add: find_filter_conj [symmetric]) (rule find_cong, auto)
  also have "\<dots> = Some (oldestPrimary M)"
    using find_hd_sort_key [OF ne, of createdAt] by (simp add: oldestPrimary_def)
  finally show ?thesis .
qed

lemma oldestPrimary_props:
  assumes "hasPrimary M"
  shows "oldestPrimary M \<in> set M" "linkPrecedence (oldestPrimary M) = Primary"
    "\<forall>d\<in>set M. linkPrecedence d = Primary \<longrightarrow> createdAt (oldestPrimary M) \<le> createdAt d"
proof -
  let ?ps = "filter (\<lambda>c. linkPrecedence c = Primary) M"
  have ne: "?ps \<noteq> []" using assms by (simp add: hasPrimary_filter)
  from hd_sort_key_min [OF ne, of createdAt]
  show "oldestPrimary M \<in> set M" "linkPrecedence (oldestPrimary M) = Primary"
    "\<forall>d\<in>set M. linkPrecedence d = Primary \<longrightarrow> createdAt (oldestPrimary M) \<le> createdAt d"
    by (auto simp: oldestPrimary_def)
qed

lemma build_primary_id:
  assumes "hasPrimary L" and "\<forall>c\<in>set L. linkPrecedence c = Primary \<longrightarrow> id_c c = k"
  shows "\<exists>v. buildConsolidatedContact L = Inr v \<and> primaryContactId v = k"
proof -
  let ?ps = "filter (\<lambda>c. linkPrecedence c = Primary) (sort_key createdAt L)"
  have "?ps \<noteq> []" using assms(1) by (simp add: hasPrimary_filter filter_sort sort_key_Nil_iff)
  then obtain p rest where p: "?ps = p # rest" by (cases ?ps) auto
  then have "p \<in> set ?ps" by simp
  then have "p \<in> set L" "linkPrecedence p = Primary" by auto
  with assms(2) have "id_c p = k" by blast
  then show ?thesis
    unfolding buildConsolidatedContact_def Let_def by (simp add: find_filter p)
qed

lemma primaries_of_mergedObjs:
  "c \<in> set (mergedObjs oid M) \<Longrightarrow> linkPrecedence c = Primary \<Longrightarrow> id_c c = oid"
  by (auto simp: mergedObjs_def demoteObj_def relinkObj_def split: if_splits)

lemma merge_success:
  assumes nf: "faults s = []" and hp: "hasPrimary (membership P (rows s))"
  shows "\<exists>v. mergePrimaryContacts clk P em ph s =
      (let M = membership P (rows s); oid = id_c (oldestPrimary M) in
       if needsNewSecondaryContact M em ph
       then s\<lparr>rows := mergedRows clk oid M (rows s) @ [newRow clk (nextId s) (secondaryData em ph oid)],
              seq := nextId s\<rparr>
       else s\<lparr>rows := mergedRows clk oid M (rows s)\<rparr>, Inr v)
    \<and> primaryContactId v = id_c (oldestPrimary (membership P (rows s)))"
proof -
  let ?M = "membership P (rows s)"
  let ?oid = "id_c (oldestPrimary ?M)"
  let ?new = "newObj clk (nextId s) (secondaryData em ph ?oid)"
  have h: "hasPrimary (mergedObjs ?oid ?M)" using hp by (rule hasPrimary_mergedObjs)
  have a: "\<forall>c\<in>set (mergedObjs ?oid ?M). linkPrecedence c = Primary \<longrightarrow> id_c c = ?oid"
    using primaries_of_mergedObjs by blast
  have sec: "linkPrecedence ?new = Secondary" by (simp add: secondaryData_def)
  have h2: "hasPrimary (mergedObjs ?oid ?M @ [?new])"
    using h sec by (simp add: hasPrimary_snoc_secondary)
  have a2: "\<forall>c\<in>set (mergedObjs ?oid ?M @ [?new]). linkPrecedence c = Primary \<longrightarrow> id_c c = ?oid"
    using a sec by auto
  from build_primary_id [OF h a] build_primary_id [OF h2 a2]
  show ?thesis
    unfolding merge_hasPrimary [OF nf hp] Let_def by auto
qed

lemma allPrimaryIds_Nil [simp]: "allPrimaryIds [] = []"
  by (simp add: allPrimaryIds_def)

lemma identify_merge:
  assumes "faults s = []" and "2 \<le> length (governingIds req s)"
  shows "identify clk req s =
         mergePrimaryContacts clk (governingIds req s) (r_email req) (r_phoneNumber req) s"
proof -
  have "candidateSet req s \<noteq> []" using assms(2) by (auto simp: governingIds_def)
  moreover have "governingIds req s \<noteq> []" "length (governingIds req s) \<noteq> 1" using assms(2) by auto
  ultimately show ?thesis
    using assms(1) by (simp add: identify_nofault Let_def candidateSet_def governingIds_def)
qed

text \<open>
  Claim C7, as amended. The primaries of a merge are sorted by \<open>createdAt\<close> alone, by a
  stable sort, so among the primaries that share the earliest \<open>createdAt\<close> the survivor
  is the one that comes first in the fetched sequence: the memberships of the governing
  primary ids, concatenated in the order of the ids (the ids of the matched primaries in
  the order the Store returned them, then the ids the matched secondaries point to). The
  identifier plays no part.
\<close>

theorem merge_survivor_is_first_earliest_primary:
  assumes "faults s = []"
    and "2 \<le> length (governingIds req s)"
    and "hasPrimary (fullMembership req s)"
  shows "\<exists>s' v. identify clk req s = (s', Inr v)
           \<and> primaryContactId v = id_c (oldestPrimary (fullMembership req s))
           \<and> find (earliestPrimary (fullMembership req s)) (fullMembership req s)
               = Some (oldestPrimary (fullMembership req s))"
proof -
  have hp: "hasPrimary (membership (governingIds req s) (rows s))"
    using assms(3) by (simp add: fullMembership_def)
  from merge_success [OF assms(1) hp, of clk "r_email req" "r_phoneNumber req"]
  show ?thesis
    unfolding identify_merge [OF assms(1,2)]
    using oldestPrimary_first_earliest [OF assms(3)]
    by (auto simp: fullMembership_def)
qed

lemma tie_eval:
  "identify clock1 \<lparr>r_email = Some ''c@x'', r_phoneNumber = Some ''222''\<rparr> tieStore
     = (\<lparr>rows = [tieA\<lparr>linkedId := Some 2, linkPrecedence := Secondary, updatedAt := 5000\<rparr>,
                 tieB,
                 tieC\<lparr>linkedId := Some 2, updatedAt := 5000\<rparr>],
         seq = 3, faults = []\<rparr>,
        Inr \<lparr>primaryContactId = 2, emails = [''b@x'', ''a@x'', ''c@x''],
             phoneNumbers = [''222'', ''111''], secondaryContactIds = [1, 3]\<rparr>)"
  by (simp add: eval_defs tieStore_def tieA_def tieB_def tieC_def clock1_def)

theorem merge_survivor_is_first_earliest_primary_witness:
  "faults tieStore = []
   \<and> governingIds \<lparr>r_email = Some ''c@x'', r_phoneNumber = Some ''222''\<rparr> tieStore = [2, 1]
   \<and> fullMembership \<lparr>r_email = Some ''c@x'', r_phoneNumber = Some ''222''\<rparr> tieStore
       = [tieB, tieA, tieC]
   \<and> hasPrimary [tieB, tieA, tieC]
   \<and> find (earliestPrimary [tieB, tieA, tieC]) [tieB, tieA, tieC] = Some tieB
   \<and> oldestPrimary [tieB, tieA, tieC] = tieB
   \<and> primaryContactId (projr (snd (identify clock1
         \<lparr>r_email = Some ''c@x'', r_phoneNumber = Some ''222''\<rparr> tieStore))) = id_c tieB"
proof -
  have g: "governingIds \<lparr>r_email = Some ''c@x'', r_phoneNumber = Some ''222''\<rparr> tieStore = [2, 1]"
    by (simp add: notion_defs eval_defs tieStore_def tieA_def tieB_def tieC_def)
  have m: "fullMembership \<lparr>r_email = Some ''c@x'', r_phoneNumber = Some ''222''\<rparr> tieStore
       = [tieB, tieA, tieC]"
    unfolding fullMembership_def g
    by (simp add: membership_def linkedRows_def live_def tieStore_def tieA_def tieB_def tieC_def)
  have h: "hasPrimary [tieB, tieA, tieC]" by (simp add: hasPrimary_def tieB_def)
  have f: "faults tieStore = []" by (simp add: tieStore_def)
  have o: "oldestPrimary [tieB, tieA, tieC] = tieB"
    by (simp add: oldestPrimary_def tieA_def tieB_def tieC_def)
  from merge_survivor_is_first_earliest_primary
    [of tieStore "\<lparr>r_email = Some ''c@x'', r_phoneNumber = Some ''222''\<rparr>" clock1]
  obtain s' v where
    r: "identify clock1 \<lparr>r_email = Some ''c@x'', r_phoneNumber = Some ''222''\<rparr> tieStore = (s', Inr v)"
       "primaryContactId v = id_c (oldestPrimary [tieB, tieA, tieC])"
       "find (earliestPrimary [tieB, tieA, tieC]) [tieB, tieA, tieC]
          = Some (oldestPrimary [tieB, tieA, tieC])"
    unfolding m g using f h by auto
  have "primaryContactId (projr (snd (identify clock1
         \<lparr>r_email = Some ''c@x'', r_phoneNumber = Some ''222''\<rparr> tieStore))) = id_c tieB"
    unfolding r(1) using r(2) o by simp
  with f g m h o r(3) show ?thesis by (simp only: simp_thms)
qed

text \<open>
  Claim C7 as stated fails. The primaries 1 and 2 were created in the same second; record
  3 is a secondary of 1. The observation (c@x, 222) matches primary 2 directly and
  primary 1 only through record 3, so the membership of 2 is fetched first and, of the two
  primaries of equal \<open>createdAt\<close>, 2 survives: the primary with the smaller identifier is
  demoted. The rows are in ascending id order, as SQLite returns them.
\<close>

theorem tie_not_broken_by_id_counterexample:
  "createdAt tieA = createdAt tieB \<and> id_c tieA < id_c tieB
   \<and> linkPrecedence tieA = Primary \<and> linkPrecedence tieB = Primary
   \<and> identify clock1 \<lparr>r_email = Some ''c@x'', r_phoneNumber = Some ''222''\<rparr> tieStore
     = (\<lparr>rows = [tieA\<lparr>linkedId := Some (id_c tieB), linkPrecedence := Secondary, updatedAt := 5000\<rparr>,
                 tieB,
                 tieC\<lparr>linkedId := Some (id_c tieB), updatedAt := 5000\<rparr>],
         seq = 3, faults = []\<rparr>,
        Inr \<lparr>primaryContactId = id_c tieB, emails = [''b@x'', ''a@x'', ''c@x''],
             phoneNumbers = [''222'', ''111''], secondaryContactIds = [1, 3]\<rparr>)"
  by (simp add: tie_eval) (simp add: tieA_def tieB_def)

lemma tieStore_reachable:
  "fst (identify \<lparr>dbNow = 2000, jsNow = 2000\<rparr> \<lparr>r_email = Some ''c@x'', r_phoneNumber = Some ''111''\<rparr>
     (fst (identify \<lparr>dbNow = 1000, jsNow = 1000\<rparr> \<lparr>r_email = Some ''b@x'', r_phoneNumber = Some ''222''\<rparr>
       (fst (identify \<lparr>dbNow = 1000, jsNow = 1000\<rparr> \<lparr>r_email = Some ''a@x'', r_phoneNumber = Some ''111''\<rparr>
          emptyStore))))) = tieStore"
  by (simp add: eval_defs tieStore_def tieA_def tieB_def tieC_def emptyStore_def)

section \<open>The table after a merge\<close>

lemma set_linkedRows:
  "set (linkedRows p rs) = {c \<in> set rs. live c \<and> (id_c c = p \<or> linkedId c = Some p)}"
  by (auto simp: linkedRows_def)

lemma set_membership:
  "set (membership P rs) =
     {c \<in> set rs. live c \<and> (id_c c \<in> set P \<or> (\<exists>p\<in>set P. linkedId c = Some p))}"
  by (auto simp: membership_def set_linkedRows)

lemma id_inj_on_rows:
  "distinct (map id_c rs) \<Longrightarrow> c \<in> set rs \<Longrightarrow> d \<in> set rs \<Longrightarrow> id_c c = id_c d \<Longrightarrow> c = d"
  by (meson distinct_map inj_on_def)

lemma mergedRows_distinct:
  assumes d: "distinct (map id_c rs)" and sub: "set M \<subseteq> set rs"
  shows "mergedRows clk oid M rs = map (mergeRow clk oid M) rs"
proof -
  have "\<And>r. r \<in> set rs \<Longrightarrow>
     (if id_c (if id_c r \<in> demotedIds oid M
               then applyUpdates clk \<lparr>u_linkedId = Some oid, u_linkPrecedence = Some Secondary\<rparr> r
               else r) \<in> relinkedIds oid M
      then applyUpdates clk \<lparr>u_linkedId = Some oid, u_linkPrecedence = None\<rparr>
             (if id_c r \<in> demotedIds oid M
              then applyUpdates clk \<lparr>u_linkedId = Some oid, u_linkPrecedence = Some Secondary\<rparr> r
              else r)
      else (if id_c r \<in> demotedIds oid M
            then applyUpdates clk \<lparr>u_linkedId = Some oid, u_linkPrecedence = Some Secondary\<rparr> r
            else r)) = mergeRow clk oid M r"
  proof -
    fix r assume r: "r \<in> set rs"
    have D: "id_c r \<in> demotedIds oid M \<longleftrightarrow> r \<in> set M \<and> linkPrecedence r = Primary \<and> id_c r \<noteq> oid"
      using id_inj_on_rows [OF d _ r] sub by (auto simp: demotedIds_def image_iff)
    have R: "id_c r \<in> relinkedIds oid M \<longleftrightarrow>
             r \<in> set M \<and> linkPrecedence r = Secondary \<and> linkedId r \<noteq> Some oid"
      using id_inj_on_rows [OF d _ r] sub by (auto simp: relinkedIds_def image_iff)
    show "(if id_c (if id_c r \<in> demotedIds oid M
               then applyUpdates clk \<lparr>u_linkedId = Some oid, u_linkPrecedence = Some Secondary\<rparr> r
               else r) \<in> relinkedIds oid M
      then applyUpdates clk \<lparr>u_linkedId = Some oid, u_linkPrecedence = None\<rparr>
             (if id_c r \<in> demotedIds oid M
              then applyUpdates clk \<lparr>u_linkedId = Some oid, u_linkPrecedence = Some Secondary\<rparr> r
              else r)
      else (if id_c r \<in> demotedIds oid M
            then applyUpdates clk \<lparr>u_linkedId = Some oid, u_linkPrecedence = Some Secondary\<rparr> r
            else r)) = mergeRow clk oid M r"
      by (cases "linkPrecedence r")
         (auto simp add: D R mergeRow_def applyUpdates_def Let_def)
  qed
  then show ?thesis
    unfolding mergedRows_def updateRows_def by (simp add: comp_def)
qed

lemma id_mergeRow [simp]: "id_c (mergeRow clk oid M c) = id_c c"
  and live_mergeRow [simp]: "live (mergeRow clk oid M c) = live c"
  by (simp_all add: mergeRow_def live_def)

lemma membership_subset: "set (membership P rs) \<subseteq> set rs"
  by (auto simp: set_membership)

lemma identify_merge_rows:
  assumes nf: "faults s = []" and d: "distinct (map id_c (rows s))"
    and two: "2 \<le> length (governingIds req s)"
    and hp: "hasPrimary (fullMembership req s)"
  shows "\<exists>v. identify clk req s =
      (let M = fullMembership req s; oid = id_c (oldestPrimary M) in
       if newInformation M (r_email req) (r_phoneNumber req)
       then s\<lparr>rows := map (mergeRow clk oid M) (rows s) @
                        [newRow clk (nextId s) (secondaryData (r_email req) (r_phoneNumber req) oid)],
              seq := nextId s\<rparr>
       else s\<lparr>rows := map (mergeRow clk oid M) (rows s)\<rparr>, Inr v)
    \<and> primaryContactId v = id_c (oldestPrimary (fullMembership req s))"
proof -
  have hp': "hasPrimary (membership (governingIds req s) (rows s))"
    using hp by (simp add: fullMembership_def)
  have mr: "\<And>oid. mergedRows clk oid (membership (governingIds req s) (rows s)) (rows s)
      = map (mergeRow clk oid (membership (governingIds req s) (rows s))) (rows s)"
    by (rule mergedRows_distinct [OF d membership_subset])
  from merge_success [OF nf hp', of clk "r_email req" "r_phoneNumber req"]
  show ?thesis
    unfolding identify_merge [OF nf two] fullMembership_def Let_def mr needsNew_iff .
qed

text \<open>
  Claim C1. Let the observation have at least two governing primary ids, let the ids of
  the table be distinct (\<^verbatim>\<open>id\<close> is the primary key), let no Store call fail and let some
  fetched record be primary. Then \<open>identify\<close> returns a view whose primary is the fetched
  primary \<open>o\<close> with the earliest \<open>createdAt\<close>, and the table afterwards is exactly the old
  table, record by record in the old order, with every fetched primary other than \<open>o\<close>
  rewritten to \<open>Secondary\<close> with \<open>linkedId\<close> the id of \<open>o\<close>, every fetched secondary that
  pointed elsewhere rewritten to point to \<open>o\<close>, every other record as it was, followed by the
  one new secondary when the observation brings new information. Hence the ids stay
  distinct, the record with the id of \<open>o\<close> is \<open>o\<close> itself, and every other record of the
  table with the id of a fetched record is a secondary whose \<open>linkedId\<close> is the id of \<open>o\<close>:
  no chain of depth two remains among the merged identities.
\<close>

theorem merge_keeps_oldest_and_flattens:
  assumes "faults s = []"
    and "distinct (map id_c (rows s))"
    and "2 \<le> length (governingIds req s)"
    and "hasPrimary (fullMembership req s)"
  shows "\<exists>s' v. identify clk req s = (s', Inr v)
     \<and> primaryContactId v = id_c (oldestPrimary (fullMembership req s))
     \<and> oldestPrimary (fullMembership req s) \<in> set (fullMembership req s)
     \<and> linkPrecedence (oldestPrimary (fullMembership req s)) = Primary
     \<and> (\<forall>c\<in>set (fullMembership req s). linkPrecedence c = Primary \<longrightarrow>
            createdAt (oldestPrimary (fullMembership req s)) \<le> createdAt c)
     \<and> rows s' =
           map (\<lambda>c. if c \<in> set (fullMembership req s) \<and> linkPrecedence c = Primary
                        \<and> c \<noteq> oldestPrimary (fullMembership req s)
                     then c\<lparr>linkedId := Some (id_c (oldestPrimary (fullMembership req s))),
                            linkPrecedence := Secondary, updatedAt := dbNow clk\<rparr>
                     else if c \<in> set (fullMembership req s) \<and> linkPrecedence c = Secondary
                        \<and> linkedId c \<noteq> Some (id_c (oldestPrimary (fullMembership req s)))
                     then c\<lparr>linkedId := Some (id_c (oldestPrimary (fullMembership req s))),
                            updatedAt := dbNow clk\<rparr>
                     else c) (rows s)
           @ (if newInformation (fullMembership req s) (r_email req) (r_phoneNumber req)
              then [\<lparr>id_c = nextId s, phoneNumber = orNull (r_phoneNumber req),
                     email = orNull (r_email req),
                     linkedId = Some (id_c (oldestPrimary (fullMembership req s))),
                     linkPrecedence = Secondary,
                     createdAt = dbNow clk, updatedAt = dbNow clk, deletedAt = None\<rparr>]
              else [])
     \<and> distinct (map id_c (rows s'))
     \<and> (\<forall>r\<in>set (rows s'). id_c r = id_c (oldestPrimary (fullMembership req s)) \<longrightarrow>
            r = oldestPrimary (fullMembership req s))
     \<and> (\<forall>r\<in>set (rows s'). id_c r \<in> id_c ` set (fullMembership req s)
              \<and> id_c r \<noteq> id_c (oldestPrimary (fullMembership req s)) \<longrightarrow>
            linkPrecedence r = Secondary
            \<and> linkedId r = Some (id_c (oldestPrimary (fullMembership req s))))
     \<and> oldestPrimary (fullMembership req s) \<in> set (rows s')
     \<and> (\<forall>c\<in>set (fullMembership req s).
            linkPrecedence c = Primary \<and> c \<noteq> oldestPrimary (fullMembership req s) \<longrightarrow>
            c\<lparr>linkedId := Some (id_c (oldestPrimary (fullMembership req s))),
              linkPrecedence := Secondary, updatedAt := dbNow clk\<rparr> \<in> set (rows s'))
     \<and> (\<forall>c\<in>set (fullMembership req s). linkPrecedence c = Secondary \<longrightarrow>
            (if linkedId c = Some (id_c (oldestPrimary (fullMembership req s))) then c
             else c\<lparr>linkedId := Some (id_c (oldestPrimary (fullMembership req s))),
                    updatedAt := dbNow clk\<rparr>) \<in> set (rows s'))
     \<and> (\<forall>c\<in>set (rows s). c \<notin> set (fullMembership req s) \<longrightarrow> c \<in> set (rows s'))"
proof -
  let ?M = "fullMembership req s"
  let ?o = "oldestPrimary ?M"
  let ?oid = "id_c ?o"
  let ?NI = "newInformation ?M (r_email req) (r_phoneNumber req)"
  let ?new = "newRow clk (nextId s) (secondaryData (r_email req) (r_phoneNumber req) ?oid)"
  let ?extra = "if ?NI then [?new] else []"
  let ?g = "\<lambda>c. if c \<in> set ?M \<and> linkPrecedence c = Primary \<and> c \<noteq> ?o
                     then c\<lparr>linkedId := Some ?oid, linkPrecedence := Secondary, updatedAt := dbNow clk\<rparr>
                     else if c \<in> set ?M \<and> linkPrecedence c = Secondary \<and> linkedId c \<noteq> Some ?oid
                     then c\<lparr>linkedId := Some ?oid, updatedAt := dbNow clk\<rparr>
                     else c"
  note o = oldestPrimary_props [OF assms(4)]
  have sub: "set ?M \<subseteq> set (rows s)" by (simp add: fullMembership_def membership_subset)
  have oin: "?o \<in> set (rows s)" using o(1) sub by blast
  have inj: "\<And>c d. c \<in> set (rows s) \<Longrightarrow> d \<in> set (rows s) \<Longrightarrow> id_c c = id_c d \<Longrightarrow> c = d"
    using id_inj_on_rows [OF assms(2)] by blast
  have gh: "map ?g (rows s) = map (mergeRow clk ?oid ?M) (rows s)"
  proof (rule map_cong [OF refl])
    fix c assume c: "c \<in> set (rows s)"
    have "c \<noteq> ?o \<longleftrightarrow> id_c c \<noteq> ?oid" using inj [OF c oin] by auto
    then show "?g c = mergeRow clk ?oid ?M c" by (simp add: mergeRow_def)
  qed
  from identify_merge_rows [OF assms, of clk] obtain s' v where
    r: "identify clk req s = (s', Inr v)" "primaryContactId v = ?oid"
    and rows: "rows s' = map (mergeRow clk ?oid ?M) (rows s) @ ?extra"
    by (auto simp: Let_def split: if_splits)
  have newid: "id_c ?new = nextId s" by (simp add: newRow_def)
  have fresh: "nextId s \<notin> id_c ` set (rows s)" by (rule nextId_notin)
  have ex: "?extra = (if ?NI then [\<lparr>id_c = nextId s, phoneNumber = orNull (r_phoneNumber req),
                     email = orNull (r_email req), linkedId = Some ?oid,
                     linkPrecedence = Secondary,
                     createdAt = dbNow clk, updatedAt = dbNow clk, deletedAt = None\<rparr>] else [])"
    by (simp add: newRow_def secondaryData_def)
  have exact: "rows s' = map ?g (rows s) @ (if ?NI then [\<lparr>id_c = nextId s, phoneNumber = orNull (r_phoneNumber req),
                     email = orNull (r_email req), linkedId = Some ?oid,
                     linkPrecedence = Secondary,
                     createdAt = dbNow clk, updatedAt = dbNow clk, deletedAt = None\<rparr>] else [])"
    unfolding rows gh ex ..
  have mem: "\<And>r. r \<in> set (rows s') \<Longrightarrow>
      (\<exists>c\<in>set (rows s). r = mergeRow clk ?oid ?M c) \<or> (r = ?new \<and> ?NI)"
    unfolding rows by (auto split: if_splits)
  have memI: "\<And>c. c \<in> set (rows s) \<Longrightarrow> mergeRow clk ?oid ?M c \<in> set (rows s')"
    unfolding rows by simp
  have dist: "distinct (map id_c (rows s'))"
    unfolding rows using assms(2) fresh newid by (auto simp: comp_def image_iff)
  have surv: "\<forall>r\<in>set (rows s'). id_c r = ?oid \<longrightarrow> r = ?o"
  proof (intro ballI impI)
    fix r assume r: "r \<in> set (rows s')" "id_c r = ?oid"
    from mem [OF r(1)] show "r = ?o"
    proof
      assume "\<exists>c\<in>set (rows s). r = mergeRow clk ?oid ?M c"
      then obtain c where c: "c \<in> set (rows s)" "r = mergeRow clk ?oid ?M c" by blast
      then have "id_c c = ?oid" using r(2) by simp
      then have "c = ?o" using inj [OF c(1) oin] by simp
      then show ?thesis using c(2) o(2) by (simp add: mergeRow_def)
    next
      assume "r = ?new \<and> ?NI"
      then have "nextId s = ?oid" using r(2) newid by simp
      then show ?thesis using fresh oin by (metis image_eqI)
    qed
  qed
  have flat: "\<forall>r\<in>set (rows s'). id_c r \<in> id_c ` set ?M \<and> id_c r \<noteq> ?oid \<longrightarrow>
            linkPrecedence r = Secondary \<and> linkedId r = Some ?oid"
  proof (intro ballI impI)
    fix r assume r: "r \<in> set (rows s')" "id_c r \<in> id_c ` set ?M \<and> id_c r \<noteq> ?oid"
    from mem [OF r(1)] show "linkPrecedence r = Secondary \<and> linkedId r = Some ?oid"
    proof
      assume "\<exists>c\<in>set (rows s). r = mergeRow clk ?oid ?M c"
      then obtain c where c: "c \<in> set (rows s)" "r = mergeRow clk ?oid ?M c" by blast
      from r(2) obtain m where m: "m \<in> set ?M" "id_c m = id_c c" using c(2) by auto
      then have "c = m" using inj [OF c(1), of m] sub by auto
      then have cm: "c \<in> set ?M" "id_c c \<noteq> ?oid" using m r(2) c(2) by auto
      then show ?thesis unfolding c(2) by (cases "linkPrecedence c") (auto simp: mergeRow_def)
    next
      assume "r = ?new \<and> ?NI"
      then show ?thesis by (simp add: newRow_def secondaryData_def)
    qed
  qed
  have a: "?o \<in> set (rows s')"
    using memI [OF oin] o(2) by (simp add: mergeRow_def)
  have b: "\<forall>c\<in>set ?M. linkPrecedence c = Primary \<and> c \<noteq> ?o \<longrightarrow>
            c\<lparr>linkedId := Some ?oid, linkPrecedence := Secondary, updatedAt := dbNow clk\<rparr> \<in> set (rows s')"
  proof (intro ballI impI)
    fix c assume c: "c \<in> set ?M" "linkPrecedence c = Primary \<and> c \<noteq> ?o"
    then have "id_c c \<noteq> ?oid" using inj [of c ?o] oin sub by auto
    then show "c\<lparr>linkedId := Some ?oid, linkPrecedence := Secondary, updatedAt := dbNow clk\<rparr> \<in> set (rows s')"
      using memI [of c] c sub by (auto simp: mergeRow_def)
  qed
  have c: "\<forall>c\<in>set ?M. linkPrecedence c = Secondary \<longrightarrow>
            (if linkedId c = Some ?oid then c
             else c\<lparr>linkedId := Some ?oid, updatedAt := dbNow clk\<rparr>) \<in> set (rows s')"
  proof (intro ballI impI)
    fix c assume c: "c \<in> set ?M" "linkPrecedence c = Secondary"
    then show "(if linkedId c = Some ?oid then c
             else c\<lparr>linkedId := Some ?oid, updatedAt := dbNow clk\<rparr>) \<in> set (rows s')"
      using memI [of c] sub by (auto simp: mergeRow_def)
  qed
  have e: "\<forall>c\<in>set (rows s). c \<notin> set ?M \<longrightarrow> c \<in> set (rows s')"
  proof (intro ballI impI)
    fix c assume c: "c \<in> set (rows s)" "c \<notin> set ?M"
    then have "mergeRow clk ?oid ?M c = c" by (simp add: mergeRow_def)
    with memI [OF c(1)] show "c \<in> set (rows s')" by simp
  qed
  from r o exact dist surv flat a b c e show ?thesis by blast
qed

theorem merge_keeps_oldest_and_flattens_witness:
  "faults georgeBiffStore = []
   \<and> distinct (map id_c (rows georgeBiffStore))
   \<and> governingIds \<lparr>r_email = Some ''george@x'', r_phoneNumber = Some ''717171''\<rparr> georgeBiffStore
       = [1, 2]
   \<and> fullMembership \<lparr>r_email = Some ''george@x'', r_phoneNumber = Some ''717171''\<rparr> georgeBiffStore
       = [george, biff, biff2]
   \<and> hasPrimary [george, biff, biff2]
   \<and> oldestPrimary [george, biff, biff2] = george
   \<and> identify clock1 \<lparr>r_email = Some ''george@x'', r_phoneNumber = Some ''717171''\<rparr> georgeBiffStore
       = (\<lparr>rows = [george,
                   biff\<lparr>linkedId := Some 1, linkPrecedence := Secondary, updatedAt := 5000\<rparr>,
                   biff2\<lparr>linkedId := Some 1, updatedAt := 5000\<rparr>],
           seq = 3, faults = []\<rparr>,
          Inr \<lparr>primaryContactId = 1, emails = [''george@x'', ''biff@x'', ''biff2@x''],
               phoneNumbers = [''919191'', ''717171''], secondaryContactIds = [2, 3]\<rparr>)"
proof -
  have f: "faults georgeBiffStore = []" by (simp add: georgeBiffStore_def)
  have d: "distinct (map id_c (rows georgeBiffStore))"
    by (simp add: georgeBiffStore_def george_def biff_def biff2_def)
  have g: "governingIds \<lparr>r_email = Some ''george@x'', r_phoneNumber = Some ''717171''\<rparr> georgeBiffStore
       = [1, 2]"
    by (simp add: notion_defs eval_defs georgeBiffStore_def george_def biff_def biff2_def)
  have m: "fullMembership \<lparr>r_email = Some ''george@x'', r_phoneNumber = Some ''717171''\<rparr> georgeBiffStore
       = [george, biff, biff2]"
    unfolding fullMembership_def g
    by (simp add: membership_def linkedRows_def live_def georgeBiffStore_def george_def biff_def biff2_def)
  have h: "hasPrimary [george, biff, biff2]" by (simp add: hasPrimary_def george_def)
  have o: "oldestPrimary [george, biff, biff2] = george"
    by (simp add: oldestPrimary_def george_def biff_def biff2_def)
  have e: "identify clock1 \<lparr>r_email = Some ''george@x'', r_phoneNumber = Some ''717171''\<rparr> georgeBiffStore
       = (\<lparr>rows = [george,
                   biff\<lparr>linkedId := Some 1, linkPrecedence := Secondary, updatedAt := 5000\<rparr>,
                   biff2\<lparr>linkedId := Some 1, updatedAt := 5000\<rparr>],
           seq = 3, faults = []\<rparr>,
          Inr \<lparr>primaryContactId = 1, emails = [''george@x'', ''biff@x'', ''biff2@x''],
               phoneNumbers = [''919191'', ''717171''], secondaryContactIds = [2, 3]\<rparr>)"
    by (simp add: eval_defs georgeBiffStore_def george_def biff_def biff2_def clock1_def)
  have two: "2 \<le> length (governingIds \<lparr>r_email = Some ''george@x'', r_phoneNumber = Some ''717171''\<rparr>
                georgeBiffStore)"
    by (simp add: g)
  have hm: "hasPrimary (fullMembership \<lparr>r_email = Some ''george@x'', r_phoneNumber = Some ''717171''\<rparr>
                georgeBiffStore)"
    by (simp add: m h)
  from merge_keeps_oldest_and_flattens [OF f d two hm, of clock1] f d g m h o e
  show ?thesis by (simp only: simp_thms)
qed

section \<open>The depth-1 forest\<close>











lemma live_newRow [simp]: "live (newRow clk i d)"
  by (simp add: live_def newRow_def)




lemma wellFormed_emptyStore: "wellFormed emptyStore"
  by (simp add: wellFormed_def emptyStore_def)


section \<open>Calls that return a view\<close>




















end
